theory Spec2Isabelle
  imports Complex_Main
begin

section \<open>Text\<close>

text \<open>
  A Python \<open>str\<close> is modelled as a \<open>string\<close> whose 8-bit characters are read as the
  code points U+0000 .. U+00FF, so \<open>length\<close> is Python's \<open>len\<close>. The character tables
  below are those of Python 3 on that range.
\<close>

definition ascii_upper :: string where
  "ascii_upper = ''ABCDEFGHIJKLMNOPQRSTUVWXYZ''"

definition ascii_lower :: string where
  "ascii_lower = ''abcdefghijklmnopqrstuvwxyz''"

definition latin_upper :: string where
  "latin_upper =
     [CHR 0xC0, CHR 0xC1, CHR 0xC2, CHR 0xC3, CHR 0xC4, CHR 0xC5, CHR 0xC6, CHR 0xC7,
      CHR 0xC8, CHR 0xC9, CHR 0xCA, CHR 0xCB, CHR 0xCC, CHR 0xCD, CHR 0xCE, CHR 0xCF,
      CHR 0xD0, CHR 0xD1, CHR 0xD2, CHR 0xD3, CHR 0xD4, CHR 0xD5, CHR 0xD6,
      CHR 0xD8, CHR 0xD9, CHR 0xDA, CHR 0xDB, CHR 0xDC, CHR 0xDD, CHR 0xDE]"

definition latin_lower :: string where
  "latin_lower =
     [CHR 0xE0, CHR 0xE1, CHR 0xE2, CHR 0xE3, CHR 0xE4, CHR 0xE5, CHR 0xE6, CHR 0xE7,
      CHR 0xE8, CHR 0xE9, CHR 0xEA, CHR 0xEB, CHR 0xEC, CHR 0xED, CHR 0xEE, CHR 0xEF,
      CHR 0xF0, CHR 0xF1, CHR 0xF2, CHR 0xF3, CHR 0xF4, CHR 0xF5, CHR 0xF6,
      CHR 0xF8, CHR 0xF9, CHR 0xFA, CHR 0xFB, CHR 0xFC, CHR 0xFD, CHR 0xFE]"

definition lower_char :: "char \<Rightarrow> char" where
  "lower_char c =
     (case map_of (zip (ascii_upper @ latin_upper) (ascii_lower @ latin_lower)) c of
        Some d \<Rightarrow> d | None \<Rightarrow> c)"

definition upper_char :: "char \<Rightarrow> char" where
  "upper_char c =
     (case map_of (zip (ascii_lower @ latin_lower) (ascii_upper @ latin_upper)) c of
        Some d \<Rightarrow> d | None \<Rightarrow> c)"

text \<open>
  \<open>str.upper()\<close>. U+00DF becomes the two letters \<open>SS\<close>. The upper-case forms of U+00B5
  and U+00FF lie beyond U+00FF; they are kept as they are, which no test of this program
  tells apart (neither form is an ASCII letter or one of the accented capitals).
\<close>

definition upper :: "string \<Rightarrow> string" where
  "upper s = concat (map (\<lambda>c. if c = CHR 0xDF then ''SS'' else [upper_char c]) s)"

definition is_digit :: "char \<Rightarrow> bool" where
  "is_digit c = (c \<in> set ''0123456789'')"

text \<open>\<open>str.isspace()\<close>, which is also the class \<open>\s\<close> and what \<open>str.strip()\<close> removes.\<close>

definition is_space :: "char \<Rightarrow> bool" where
  "is_space c = (c \<in> set [CHR 0x09, CHR 0x0A, CHR 0x0B, CHR 0x0C, CHR 0x0D,
                           CHR 0x1C, CHR 0x1D, CHR 0x1E, CHR 0x1F, CHR 0x20, CHR 0x85, CHR 0xA0])"

text \<open>The class \<open>\w\<close>: alphanumeric characters and the underscore.\<close>

definition is_word :: "char \<Rightarrow> bool" where
  "is_word c = (c \<in> set (''0123456789_'' @ ascii_upper @ ascii_lower @ latin_upper @ latin_lower
       @ [CHR 0xAA, CHR 0xB2, CHR 0xB3, CHR 0xB5, CHR 0xB9, CHR 0xBA, CHR 0xBC, CHR 0xBD, CHR 0xBE,
          CHR 0xDF, CHR 0xFF]))"

definition strip :: "string \<Rightarrow> string" where
  "strip s = rev (dropWhile is_space (rev (dropWhile is_space s)))"

text \<open>\<open>s.replace(old, "")\<close> for a one-character \<open>old\<close>.\<close>

definition remove_char :: "char \<Rightarrow> string \<Rightarrow> string" where
  "remove_char c s = filter (\<lambda>d. d \<noteq> c) s"

text \<open>\<open>s.replace(a, b)\<close> for one-character \<open>a\<close> and \<open>b\<close>.\<close>

definition replace_char :: "char \<Rightarrow> char \<Rightarrow> string \<Rightarrow> string" where
  "replace_char a b s = map (\<lambda>d. if d = a then b else d) s"

text \<open>\<open>sub in s\<close>.\<close>

fun contains :: "string \<Rightarrow> string \<Rightarrow> bool" where
  "contains sub [] = (sub = [])"
| "contains sub (c # cs) = (take (length sub) (c # cs) = sub \<or> contains sub cs)"

section \<open>Regular expressions\<close>

text \<open>
  The patterns of the program are values of \<open>regex\<close>; \<open>rmatch\<close> is the backtracking
  matcher of Python's \<open>re\<close>: from a position it returns every way the pattern can match
  there, in the order in which the engine tries them (greedy operators the longest first,
  lazy ones the shortest first, the left alternative before the right one).
\<close>

datatype regex =
    Eps
  | Lit char
  | Cls "char \<Rightarrow> bool"
  | WordB
  | Seq regex regex
  | Alt regex regex
  | Rep nat nat regex
  | LazyRep nat nat regex
  | Star regex
  | LazyStar regex
  | Group nat regex

text \<open>
  A position in the searched text: the character before it (none at the start), the text
  from it on, and the groups captured so far.
\<close>

record mstate =
  prev :: "char option"
  rest :: string
  caps :: "nat \<rightharpoonup> string"

definition step :: "(char \<Rightarrow> bool) \<Rightarrow> mstate \<Rightarrow> mstate list" where
  "step p s = (case rest s of
      [] \<Rightarrow> []
    | c # cs \<Rightarrow> if p c then [s\<lparr>prev := Some c, rest := cs\<rparr>] else [])"

text \<open>\<open>\b\<close>: exactly one of the two neighbouring characters is a word character.\<close>

definition at_boundary :: "mstate \<Rightarrow> bool" where
  "at_boundary s =
     ((case prev s of None \<Rightarrow> False | Some c \<Rightarrow> is_word c)
      \<noteq> (case rest s of [] \<Rightarrow> False | c # _ \<Rightarrow> is_word c))"

primrec times :: "(mstate \<Rightarrow> mstate list) \<Rightarrow> nat \<Rightarrow> mstate \<Rightarrow> mstate list" where
  "times f 0 s = [s]"
| "times f (Suc n) s = concat (map (times f n) (f s))"

primrec upto_greedy :: "(mstate \<Rightarrow> mstate list) \<Rightarrow> nat \<Rightarrow> mstate \<Rightarrow> mstate list" where
  "upto_greedy f 0 s = [s]"
| "upto_greedy f (Suc n) s = concat (map (upto_greedy f n) (f s)) @ [s]"

primrec upto_lazy :: "(mstate \<Rightarrow> mstate list) \<Rightarrow> nat \<Rightarrow> mstate \<Rightarrow> mstate list" where
  "upto_lazy f 0 s = [s]"
| "upto_lazy f (Suc n) s = s # concat (map (upto_lazy f n) (f s))"

definition set_group :: "nat \<Rightarrow> mstate \<Rightarrow> mstate \<Rightarrow> mstate" where
  "set_group k s s' =
     s'\<lparr>caps := (caps s')(k \<mapsto> take (length (rest s) - length (rest s')) (rest s))\<rparr>"

text \<open>
  Every starred pattern of the program consumes at least one character per round, so a
  star makes at most as many rounds as characters are left: the bound given to
  \<open>upto_greedy\<close> and \<open>upto_lazy\<close> is never the reason why a round is not tried.
\<close>

primrec rmatch :: "bool \<Rightarrow> regex \<Rightarrow> mstate \<Rightarrow> mstate list" where
  "rmatch ic Eps s = [s]"
| "rmatch ic (Lit c) s = step (\<lambda>d. if ic then lower_char d = lower_char c else d = c) s"
| "rmatch ic (Cls p) s = step p s"
| "rmatch ic WordB s = (if at_boundary s then [s] else [])"
| "rmatch ic (Seq a b) s = concat (map (rmatch ic b) (rmatch ic a s))"
| "rmatch ic (Alt a b) s = rmatch ic a s @ rmatch ic b s"
| "rmatch ic (Rep m n a) s =
     concat (map (upto_greedy (rmatch ic a) (n - m)) (times (rmatch ic a) m s))"
| "rmatch ic (LazyRep m n a) s =
     concat (map (upto_lazy (rmatch ic a) (n - m)) (times (rmatch ic a) m s))"
| "rmatch ic (Star a) s = upto_greedy (rmatch ic a) (length (rest s)) s"
| "rmatch ic (LazyStar a) s = upto_lazy (rmatch ic a) (length (rest s)) s"
| "rmatch ic (Group k a) s = map (set_group k s) (rmatch ic a s)"

text \<open>\<open>a+\<close>, \<open>a?\<close>, and a literal word as a pattern.\<close>

definition Plus :: "regex \<Rightarrow> regex" where
  "Plus a = Seq a (Star a)"

definition Opt :: "regex \<Rightarrow> regex" where
  "Opt a = Rep 0 1 a"

definition Str :: "string \<Rightarrow> regex" where
  "Str w = foldr (\<lambda>c. Seq (Lit c)) w Eps"

text \<open>
  \<open>re.search\<close>: the first way to match at the leftmost position that has one. The whole
  match is group 0. \<open>ic\<close> is the flag \<open>re.IGNORECASE\<close>.
\<close>

fun search_from :: "bool \<Rightarrow> regex \<Rightarrow> char option \<Rightarrow> string \<Rightarrow> mstate option" where
  "search_from ic r p [] =
     (case rmatch ic (Group 0 r) \<lparr>prev = p, rest = [], caps = Map.empty\<rparr> of
        s # _ \<Rightarrow> Some s | [] \<Rightarrow> None)"
| "search_from ic r p (c # cs) =
     (case rmatch ic (Group 0 r) \<lparr>prev = p, rest = c # cs, caps = Map.empty\<rparr> of
        s # _ \<Rightarrow> Some s | [] \<Rightarrow> search_from ic r (Some c) cs)"

definition re_search :: "bool \<Rightarrow> regex \<Rightarrow> string \<Rightarrow> (nat \<rightharpoonup> string) option" where
  "re_search ic r txt = map_option caps (search_from ic r None txt)"


text \<open>
  \<open>re.findall\<close> for a pattern without groups: the matches from left to right, each
  search starting where the match before it ended. \<open>skip\<close> counts the characters still
  covered by the last match. The patterns given to it never match the empty string.
\<close>

fun findall_from :: "bool \<Rightarrow> regex \<Rightarrow> char option \<Rightarrow> string \<Rightarrow> nat \<Rightarrow> string list" where
  "findall_from ic r p [] skip = []"
| "findall_from ic r p (c # cs) skip =
     (if 0 < skip then findall_from ic r (Some c) cs (skip - 1)
      else case rmatch ic (Group 0 r) \<lparr>prev = p, rest = c # cs, caps = Map.empty\<rparr> of
          [] \<Rightarrow> findall_from ic r (Some c) cs 0
        | s # _ \<Rightarrow>
            (let n = length (c # cs) - length (rest s)
             in take n (c # cs) # findall_from ic r (Some c) cs (n - 1)))"

definition re_findall :: "regex \<Rightarrow> string \<Rightarrow> string list" where
  "re_findall r txt = findall_from False r None txt 0"

section \<open>Patterns and normalisations\<close>

definition digit :: regex where
  "digit = Cls is_digit"

definition space :: regex where
  "space = Cls is_space"

text \<open>\<open>.\<close>: any character but the line feed.\<close>

definition dot :: regex where
  "dot = Cls (\<lambda>c. c \<noteq> CHR 0x0A)"

definition RE_DATE :: regex where
  "RE_DATE =
     Seq WordB (Seq (Rep 2 2 digit) (Seq (Lit CHR ''/'') (Seq (Rep 2 2 digit)
       (Seq (Lit CHR ''/'') (Seq (Rep 4 4 digit) WordB)))))"

definition RE_MES_ANO :: regex where
  "RE_MES_ANO =
     Seq WordB
       (Seq (foldr Alt (map Str [''JAN'', ''FEV'', ''MAR'', ''ABR'', ''MAI'', ''JUN'', ''JUL'',
                                  ''AGO'', ''SET'', ''OUT'', ''NOV'']) (Str ''DEZ''))
         (Seq (Star space) (Seq (Lit CHR ''/'') (Seq (Star space) (Seq (Rep 4 4 digit) WordB)))))"

definition RE_MONEY_BR :: regex where
  "RE_MONEY_BR =
     Alt (Seq WordB (Seq (Rep 1 3 digit) (Seq (Star (Seq (Lit CHR ''.'') (Rep 3 3 digit)))
            (Seq (Lit CHR '','') (Seq (Rep 2 2 digit) WordB)))))
         (Seq WordB (Seq (Plus digit) (Seq (Lit CHR '','') (Seq (Rep 2 2 digit) WordB))))"

definition RE_NUM_BR :: regex where
  "RE_NUM_BR =
     Seq (Alt (Seq (Rep 1 3 digit) (Plus (Seq (Lit CHR ''.'') (Rep 3 3 digit)))) (Plus digit))
         (Opt (Seq (Lit CHR '','') (Rep 2 2 digit)))"

text \<open>\<open>re.sub(r"[ \t]+", " ", s)\<close>\<close>

definition is_blank :: "char \<Rightarrow> bool" where
  "is_blank c = (c = CHR '' '' \<or> c = CHR 0x09)"

function collapse_blanks :: "string \<Rightarrow> string" where
  "collapse_blanks [] = []"
| "collapse_blanks (c # cs) =
     (if is_blank c then CHR '' '' # collapse_blanks (dropWhile is_blank cs)
      else c # collapse_blanks cs)"
  by pat_completeness auto
termination
  by (relation "measure length") (auto simp: length_dropWhile_le less_Suc_eq_le)

definition clean_spaces :: "string \<Rightarrow> string" where
  "clean_spaces s = strip (collapse_blanks s)"

datatype py_error = ValueError | TypeError | OverflowError | ZeroDivisionError

definition bind_err :: "py_error + 'a \<Rightarrow> ('a \<Rightarrow> py_error + 'b) \<Rightarrow> py_error + 'b" where
  "bind_err x f = (case x of Inl e \<Rightarrow> Inl e | Inr v \<Rightarrow> f v)"

definition digit_val :: "char \<Rightarrow> int" where
  "digit_val c = of_char c - 48"

definition int_of_digits :: "string \<Rightarrow> int" where
  "int_of_digits ds = foldl (\<lambda>n c. 10 * n + digit_val c) 0 ds"

text \<open>
  \<open>int(s)\<close> for a \<open>str\<close>: surrounding whitespace, an optional sign, then digits, which
  single underscores may separate; anything else raises \<open>ValueError\<close>. The result is
  Python's unbounded integer.
\<close>

fun int_body :: "string \<Rightarrow> bool" where
  "int_body [] = False"
| "int_body [c] = is_digit c"
| "int_body (c # d # cs) =
     (is_digit c \<and> (if d = CHR ''_'' then int_body cs else int_body (d # cs)))"

definition py_int_str :: "string \<Rightarrow> py_error + int" where
  "py_int_str s =
     (let t = strip s;
          (sg, b) = (case t of
                       [] \<Rightarrow> (1, t)
                     | c # r \<Rightarrow> if c = CHR ''-'' then (- 1, r)
                                else if c = CHR ''+'' then (1, r) else (1, t))
      in if int_body b then Inr (sg * int_of_digits (remove_char CHR ''_'' b))
         else Inl ValueError)"

text \<open>
  \<open>normalize_kwh\<close>. The argument is \<open>None\<close> or a \<open>str\<close>; \<open>not raw\<close> holds for
  \<open>None\<close> and for the empty string.
\<close>

definition normalize_kwh :: "string option \<Rightarrow> py_error + int option" where
  "normalize_kwh raw =
     (case raw of
        None \<Rightarrow> Inr None
      | Some r \<Rightarrow>
          if r = [] then Inr None
          else
            let s = remove_char CHR '' '' (strip r);
                s = (if CHR '','' \<in> set s then takeWhile (\<lambda>c. c \<noteq> CHR '','') s else s);
                s = remove_char CHR ''.'' s;
                s = filter is_digit s
            in if s \<noteq> [] then bind_err (py_int_str s) (\<lambda>n. Inr (Some n)) else Inr None)"

text \<open>\<open>s.replace("R$", "")\<close>\<close>

fun remove_RS :: "string \<Rightarrow> string" where
  "remove_RS (a # b # cs) =
     (if a = CHR ''R'' \<and> b = CHR ''$'' then remove_RS cs else a # remove_RS (b # cs))"
| "remove_RS cs = cs"

text \<open>
  \<open>float(s)\<close> for a string of digits and points, the only strings that reach it: a
  decimal numeral with at most one point and at least one digit, \<open>ValueError\<close> otherwise.
  A Python float is modelled by the real number it stands for; rounding to 53 bits is
  not modelled.
\<close>

definition py_float_str :: "string \<Rightarrow> py_error + real" where
  "py_float_str s =
     (let ip = takeWhile is_digit s; r = dropWhile is_digit s
      in case r of
           [] \<Rightarrow> if ip = [] then Inl ValueError else Inr (of_int (int_of_digits ip))
         | c # fp \<Rightarrow>
             if c = CHR ''.'' \<and> list_all is_digit fp \<and> (ip \<noteq> [] \<or> fp \<noteq> [])
             then Inr (of_int (int_of_digits ip) + of_int (int_of_digits fp) / 10 ^ length fp)
             else Inl ValueError)"

definition normalize_brl :: "string option \<Rightarrow> py_error + real option" where
  "normalize_brl raw =
     (case raw of
        None \<Rightarrow> Inr None
      | Some r \<Rightarrow>
          if r = [] then Inr None
          else
            let s = strip (remove_char CHR '' '' (remove_RS r));
                s = filter (\<lambda>c. is_digit c \<or> c = CHR ''.'' \<or> c = CHR '','') s
            in if s = [] then Inr None
               else
                 let s = replace_char CHR '','' CHR ''.'' (remove_char CHR ''.'' s)
                 in case py_float_str s of
                      Inr x \<Rightarrow> Inr (Some x)
                    | Inl e \<Rightarrow> if e = ValueError then Inr None else Inl e)"


section \<open>Field recognisers\<close>

text \<open>
  The labels the program passes to \<open>extract_first_date_after\<close> and
  \<open>extract_kwh_after_label\<close> consist of letters and spaces, so that each label, pasted
  into the pattern, is the sequence of its characters (\<open>Str label\<close>).
\<close>

definition extract_first_date_after :: "string \<Rightarrow> string \<Rightarrow> string option" where
  "extract_first_date_after label text_norm =
     (case re_search True (Seq (Str label) (Seq (LazyStar dot) (Group 1 RE_DATE))) text_norm of
        Some m \<Rightarrow> m 1
      | None \<Rightarrow> None)"

definition RE_BLOCO :: regex where
  "RE_BLOCO =
     Seq (Group 1 RE_DATE) (Seq (Plus space) (Seq (Group 2 RE_DATE) (Seq (Plus space)
       (Seq (Plus digit) (Seq (Plus space) (Group 3 RE_DATE))))))"

definition extract_leituras_por_bloco :: "string \<Rightarrow> string option \<times> string option" where
  "extract_leituras_por_bloco text_norm =
     (case re_search False RE_BLOCO text_norm of
        Some m \<Rightarrow> (m 1, m 2)
      | None \<Rightarrow> (None, None))"

definition boilerplate :: "string list" where
  "boilerplate = [''NEOENERGIA'', ''NOTA FISCAL'', ''CHAVE DE ACESSO'', ''PAGUE COM O PIX'']"

definition name_letter :: "char \<Rightarrow> bool" where
  "name_letter c = (c \<in> set (ascii_upper @
     [CHR 0xC1, CHR 0xC9, CHR 0xCD, CHR 0xD3, CHR 0xDA, CHR 0xC2, CHR 0xCA, CHR 0xD4,
      CHR 0xC3, CHR 0xD5, CHR 0xC7]))"

text \<open>The \<open>for\<close> loop of \<open>extract_customer_name\<close>; \<open>None\<close> when it ends without returning.\<close>

fun name_loop :: "string list \<Rightarrow> string option" where
  "name_loop [] = None"
| "name_loop (l # ls) =
     (let up = upper l
      in if list_ex (\<lambda>x. contains x up) boilerplate then name_loop ls
         else if 12 \<le> length l \<and> re_search False (Cls name_letter) up \<noteq> None
              then Some (strip l)
              else name_loop ls)"

definition extract_customer_name :: "string list \<Rightarrow> string option" where
  "extract_customer_name lines =
     (case name_loop (take 80 lines) of
        Some n \<Rightarrow> Some n
      | None \<Rightarrow> (case lines of [] \<Rightarrow> None | l # _ \<Rightarrow> Some (strip l)))"

text \<open>
  The loop of \<open>extract_customer_code\<close>, with the line before the current one (none at
  index 0). \<open>None\<close> when the loop ends or breaks without returning.
\<close>

fun code_loop :: "string option \<Rightarrow> string list \<Rightarrow> string option" where
  "code_loop prior [] = None"
| "code_loop prior (l # ls) =
     (case prior of
        None \<Rightarrow> code_loop (Some l) ls
      | Some b \<Rightarrow>
          if contains ''B3 COMERCIAL'' (upper l)
          then (let cand = strip b
                in if cand \<noteq> [] \<and> list_all (\<lambda>c. is_digit c \<or> c = CHR ''.'' \<or> c = CHR ''-'') cand
                   then Some cand else None)
          else code_loop (Some l) ls)"

definition RE_CODE :: regex where
  "RE_CODE =
     Alt (Seq WordB (Seq (Rep 1 3 digit) (Seq (Star (Seq (Lit CHR ''.'') (Rep 3 3 digit)))
            (Seq (Lit CHR ''-'') (Seq digit WordB)))))
         (Seq WordB (Seq (Rep 6 9 digit) (Seq (Lit CHR ''-'') (Seq digit WordB))))"

text \<open>\<open>" ".join(lines)\<close>\<close>

fun join_sp :: "string list \<Rightarrow> string" where
  "join_sp [] = []"
| "join_sp [l] = l"
| "join_sp (l # ls) = l @ CHR '' '' # join_sp ls"

definition extract_customer_code :: "string list \<Rightarrow> string option" where
  "extract_customer_code lines =
     (case code_loop None lines of
        Some c \<Rightarrow> Some c
      | None \<Rightarrow> (case re_search False RE_CODE (join_sp lines) of
                   Some m \<Rightarrow> m 0
                 | None \<Rightarrow> None))"

definition extract_ref_mes_ano :: "string \<Rightarrow> string option" where
  "extract_ref_mes_ano text_norm =
     (case re_search True RE_MES_ANO text_norm of
        Some m \<Rightarrow> map_option (\<lambda>g. remove_char CHR '' '' (upper g)) (m 0)
      | None \<Rightarrow> None)"

definition RE_TOTAL :: regex where
  "RE_TOTAL =
     Seq (Str ''TOTAL'') (Seq (Plus space) (Seq (Str ''A'') (Seq (Plus space) (Seq (Str ''PAGAR'')
       (Seq (LazyStar dot) (Seq (Opt (Group 1 (Str ''R$''))) (Seq (Star space)
         (Group 2 (Plus (Cls (\<lambda>c. is_digit c \<or> c = CHR ''.'' \<or> c = CHR '','')))))))))))"

definition extract_total_a_pagar :: "string \<Rightarrow> py_error + real option" where
  "extract_total_a_pagar text_norm =
     (case re_search True RE_TOTAL text_norm of
        Some m \<Rightarrow> normalize_brl (m 2)
      | None \<Rightarrow> Inr None)"

text \<open>\<open>if venc:\<close> holds for a string that is not empty.\<close>

definition extract_vencimento :: "string \<Rightarrow> string option" where
  "extract_vencimento text_norm =
     (let venc = extract_first_date_after ''VENCIMENTO'' text_norm
      in if venc \<noteq> None \<and> venc \<noteq> Some [] then venc
         else case re_search False RE_DATE text_norm of
                Some m \<Rightarrow> m 0
              | None \<Rightarrow> None)"

fun extract_consumo_kwh :: "string list \<Rightarrow> py_error + int option" where
  "extract_consumo_kwh [] = Inr None"
| "extract_consumo_kwh (l # ls) =
     (let up = upper l
      in if contains ''ENERGIA ATIVA'' up \<and> contains ''UNICO'' up
         then (let nums = re_findall RE_NUM_BR l
               in if nums \<noteq> [] then normalize_kwh (Some (last nums))
                  else extract_consumo_kwh ls)
         else extract_consumo_kwh ls)"

text \<open>
  \<open>str.splitlines()\<close>: the text is cut at line feed, carriage return (with a following
  line feed), vertical tab, form feed, the three separators U+001C .. U+001E and U+0085.
\<close>

definition is_linebreak :: "char \<Rightarrow> bool" where
  "is_linebreak c = (c \<in> set [CHR 0x0A, CHR 0x0B, CHR 0x0C, CHR 0x0D,
                               CHR 0x1C, CHR 0x1D, CHR 0x1E, CHR 0x85])"

fun splitlines_acc :: "string \<Rightarrow> string \<Rightarrow> string list" where
  "splitlines_acc cur [] = (if cur = [] then [] else [rev cur])"
| "splitlines_acc cur [c] = (if is_linebreak c then [rev cur] else [rev (c # cur)])"
| "splitlines_acc cur (c # d # cs) =
     (if c = CHR 0x0D \<and> d = CHR 0x0A then rev cur # splitlines_acc [] cs
      else if is_linebreak c then rev cur # splitlines_acc [] (d # cs)
      else splitlines_acc (c # cur) (d # cs))"

definition splitlines :: "string \<Rightarrow> string list" where
  "splitlines s = splitlines_acc [] s"

text \<open>\<open>[l.strip() for l in full_text.splitlines() if l.strip()]\<close>\<close>

definition nonempty_lines :: "string \<Rightarrow> string list" where
  "nonempty_lines full_text = filter (\<lambda>l. l \<noteq> []) (map strip (splitlines full_text))"

text \<open>The first loop of \<open>extract_custo_tusd_fio_b\<close>; \<open>None\<close> when it ends without returning.\<close>

fun custo_loop :: "string list \<Rightarrow> (py_error + real option) option" where
  "custo_loop [] = None"
| "custo_loop (l # ls) =
     (if contains ''CUSTO TUSD FIO B'' (upper l)
      then (case re_search False RE_MONEY_BR l of
              Some m \<Rightarrow> Some (normalize_brl (m 0))
            | None \<Rightarrow> custo_loop ls)
      else custo_loop ls)"

definition RE_CUSTO :: regex where
  "RE_CUSTO =
     Seq (Str ''CUSTO'') (Seq (Plus space) (Seq (Str ''TUSD'') (Seq (Plus space) (Seq (Str ''FIO'')
       (Seq (Plus space) (Seq (Str ''B'') (Seq (LazyRep 0 220 dot) (Group 1 RE_MONEY_BR))))))))"

definition extract_custo_tusd_fio_b :: "string \<Rightarrow> py_error + real option" where
  "extract_custo_tusd_fio_b full_text =
     (case custo_loop (nonempty_lines full_text) of
        Some res \<Rightarrow> res
      | None \<Rightarrow> (case re_search True RE_CUSTO (clean_spaces full_text) of
                   Some m2 \<Rightarrow> normalize_brl (m2 1)
                 | None \<Rightarrow> Inr None))"

definition kwh_tail_char :: "char \<Rightarrow> bool" where
  "kwh_tail_char c = (is_digit c \<or> c = CHR ''.'' \<or> c = CHR '','' \<or> is_space c)"

definition RE_KWH :: "string \<Rightarrow> regex" where
  "RE_KWH label =
     Seq (Str label) (Seq (Star space) (Seq (Star (Cls (\<lambda>c. c = CHR '':'' \<or> c = CHR ''.'')))
       (Seq (Star space) (Group 1 (Seq (Cls is_digit) (Star (Cls kwh_tail_char)))))))"

definition extract_kwh_after_label :: "string \<Rightarrow> string \<Rightarrow> py_error + int option" where
  "extract_kwh_after_label full_text label =
     (case re_search True (RE_KWH label) full_text of
        None \<Rightarrow> Inr None
      | Some m \<Rightarrow>
          (case m 1 of
             None \<Rightarrow> Inr None
           | Some tail \<Rightarrow>
               (let tail_no_spaces = remove_char CHR '' '' tail
                in case re_search False RE_NUM_BR tail_no_spaces of
                     None \<Rightarrow> Inr None
                   | Some m2 \<Rightarrow> normalize_kwh (m2 0))))"


section \<open>The extracted record\<close>

text \<open>
  The dictionary returned by \<open>extract_fields_from_pdf\<close> has a fixed set of keys; it is a
  record with one field for each key, in the order of the dictionary, each holding
  \<open>None\<close> or a value of the type the recogniser of that key produces.
\<close>

record fields =
  NOME_CLIENTE :: "string option"
  CODIGO_DO_CLIENTE :: "string option"
  REF_MES_ANO :: "string option"
  TOTAL_A_PAGAR :: "real option"
  VENCIMENTO :: "string option"
  LEITURA_ANTERIOR :: "string option"
  LEITURA_ATUAL :: "string option"
  CUSTO_TUSD_FIO_B :: "real option"
  CONSUMO_kWh :: "int option"
  SALDO_ANTERIOR_kWh :: "int option"
  INJETADO_kWh :: "int option"
  COMPENSADO_kWh :: "int option"
  SALDO_ATUAL_kWh :: "int option"

text \<open>\<open>not x\<close> and \<open>x or y\<close> for an optional string.\<close>

definition falsy :: "string option \<Rightarrow> bool" where
  "falsy x = (x = None \<or> x = Some [])"

definition py_or :: "string option \<Rightarrow> string option \<Rightarrow> string option" where
  "py_or x y = (if falsy x then y else x)"

text \<open>
  The text of a document: \<open>page.extract_text()\<close> of each page, which is \<open>None\<close> or a
  string, each preceded by a line feed.
\<close>

definition full_text_of :: "string option list \<Rightarrow> string" where
  "full_text_of pages =
     concat (map (\<lambda>p. CHR 0x0A # (case p of None \<Rightarrow> [] | Some t \<Rightarrow> t)) pages)"

text \<open>The body of \<open>extract_fields_from_pdf\<close> from the assembled text on.\<close>

definition extract_fields_from_text :: "string \<Rightarrow> py_error + fields" where
  "extract_fields_from_text full_text =
     (let text_norm = clean_spaces full_text;
          lines = nonempty_lines full_text;
          nome = extract_customer_name lines;
          codigo = extract_customer_code lines;
          ref_mes_ano = extract_ref_mes_ano text_norm
      in bind_err (extract_total_a_pagar text_norm) (\<lambda>total_a_pagar.
         let vencimento = extract_vencimento text_norm;
             leitura_anterior = extract_first_date_after ''LEITURA ANTERIOR'' text_norm;
             leitura_atual = extract_first_date_after ''LEITURA ATUAL'' text_norm;
             (leitura_anterior, leitura_atual) =
               (if falsy leitura_anterior \<or> falsy leitura_atual
                then (let (la_fb, lat_fb) = extract_leituras_por_bloco text_norm
                      in (py_or leitura_anterior la_fb, py_or leitura_atual lat_fb))
                else (leitura_anterior, leitura_atual))
         in bind_err (extract_custo_tusd_fio_b full_text) (\<lambda>custo_tusd_fio_b.
            bind_err (extract_consumo_kwh lines) (\<lambda>consumo.
            bind_err (extract_kwh_after_label full_text ''SALDO ANTERIOR'') (\<lambda>saldo_anterior.
            bind_err (extract_kwh_after_label full_text ''INJETADO'') (\<lambda>injetado.
            bind_err (extract_kwh_after_label full_text ''COMPENSADO'') (\<lambda>compensado.
            bind_err (extract_kwh_after_label full_text ''SALDO ATUAL'') (\<lambda>saldo_atual.
            let (saldo_anterior, injetado, compensado, saldo_atual) =
                  (if saldo_anterior = None \<and> injetado = None \<and> compensado = None
                      \<and> saldo_atual = None
                   then (Some 0, Some 0, Some 0, Some 0)
                   else (saldo_anterior, injetado, compensado, saldo_atual))
            in Inr \<lparr>NOME_CLIENTE = nome,
                    CODIGO_DO_CLIENTE = codigo,
                    REF_MES_ANO = ref_mes_ano,
                    TOTAL_A_PAGAR = total_a_pagar,
                    VENCIMENTO = vencimento,
                    LEITURA_ANTERIOR = leitura_anterior,
                    LEITURA_ATUAL = leitura_atual,
                    CUSTO_TUSD_FIO_B = custo_tusd_fio_b,
                    CONSUMO_kWh = consumo,
                    SALDO_ANTERIOR_kWh = saldo_anterior,
                    INJETADO_kWh = injetado,
                    COMPENSADO_kWh = compensado,
                    SALDO_ATUAL_kWh = saldo_atual\<rparr>))))))))"

definition extract_fields_from_pdf :: "string option list \<Rightarrow> py_error + fields" where
  "extract_fields_from_pdf pages = extract_fields_from_text (full_text_of pages)"

section \<open>The derived columns of the calling layer\<close>




text \<open>
  \<open>float(n)\<close> for an \<open>int\<close>: \<open>OverflowError\<close> when \<open>n\<close> rounds to a magnitude of
  \<open>2 ^ 1024\<close> or more, which is from \<open>2 ^ 1024 - 2 ^ 970\<close> on.
\<close>

definition py_float_int :: "int \<Rightarrow> py_error + real" where
  "py_float_int n =
     (if \<bar>n\<bar> < 2 ^ 1024 - 2 ^ 970 then Inr (of_int n) else Inl OverflowError)"

definition py_truediv :: "real \<Rightarrow> real \<Rightarrow> py_error + real" where
  "py_truediv x y = (if y = 0 then Inl ZeroDivisionError else Inr (x / y))"

text \<open>
  The \<open>try\<close> block of the fee rate; the bare \<open>except\<close> turns every error into \<open>None\<close>.
  \<open>float\<close> of the fee amount, a float, is the amount.
\<close>

definition tarifa_fio_b :: "fields \<Rightarrow> real option" where
  "tarifa_fio_b f =
     (case (let custo_fio_b = CUSTO_TUSD_FIO_B f; compensado_kwh = COMPENSADO_kWh f
            in case (custo_fio_b, compensado_kwh) of
                 (Some c, Some k) \<Rightarrow>
                   if k = 0 then Inr None
                   else bind_err (py_float_int k) (\<lambda>y.
                        bind_err (py_truediv c y) (\<lambda>q. Inr (Some q)))
               | _ \<Rightarrow> Inr None) of
        Inr t \<Rightarrow> t
      | Inl e \<Rightarrow> None)"


section \<open>Definitions used to state the properties\<close>

text \<open>The value of a decimal numeral, digit by digit.\<close>

fun decimal :: "string \<Rightarrow> int" where
  "decimal [] = 0"
| "decimal (c # cs) = digit_val c * 10 ^ length cs + decimal cs"


text \<open>The digits that \<open>normalize_kwh\<close> reads: those before the first comma.\<close>

definition kwh_digits :: "string \<Rightarrow> string" where
  "kwh_digits r = filter is_digit (takeWhile (\<lambda>c. c \<noteq> CHR '','') r)"



definition nonneg :: "int option \<Rightarrow> bool" where
  "nonneg v = (case v of None \<Rightarrow> True | Some n \<Rightarrow> 0 \<le> n)"


text \<open>The four net-metering values as the orchestrator adjusts them.\<close>

definition quartet_rule ::
  "int option \<times> int option \<times> int option \<times> int option
     \<Rightarrow> int option \<times> int option \<times> int option \<times> int option" where
  "quartet_rule q =
     (case q of (sa, ij, co, st) \<Rightarrow>
        if sa = None \<and> ij = None \<and> co = None \<and> st = None
        then (Some 0, Some 0, Some 0, Some 0) else (sa, ij, co, st))"

definition quartet :: "fields \<Rightarrow> int option \<times> int option \<times> int option \<times> int option" where
  "quartet f = (SALDO_ANTERIOR_kWh f, INJETADO_kWh f, COMPENSADO_kWh f, SALDO_ATUAL_kWh f)"

text \<open>The integers that \<open>float\<close> converts.\<close>

definition float_range :: "int \<Rightarrow> bool" where
  "float_range k = (\<bar>k\<bar> < 2 ^ 1024 - 2 ^ 970)"


text \<open>The first element of a list of matches, the one \<open>re.search\<close> returns.\<close>

definition first_is :: "'a list \<Rightarrow> 'a \<Rightarrow> bool" where
  "first_is l x = (\<exists>t. l = x # t)"

text \<open>The character before the position reached by reading \<open>u\<close>.\<close>

definition after :: "char option \<Rightarrow> string \<Rightarrow> char option" where
  "after p u = (if u = [] then p else Some (last u))"

text \<open>The text starts with the word \<open>w\<close>, letters compared without regard to case.\<close>

fun ci_prefix :: "string \<Rightarrow> string \<Rightarrow> bool" where
  "ci_prefix [] t = True"
| "ci_prefix (c # cs) [] = False"
| "ci_prefix (c # cs) (d # t) = (lower_char d = lower_char c \<and> ci_prefix cs t)"

text \<open>
  The first occurrence of the word \<open>w\<close> in a text: the character before it and the text
  from it on.
\<close>

fun skip_to :: "string \<Rightarrow> char option \<Rightarrow> string \<Rightarrow> (char option \<times> string) option" where
  "skip_to w p [] = (if w = [] then Some (p, []) else None)"
| "skip_to w p (c # t) = (if ci_prefix w (c # t) then Some (p, c # t) else skip_to w (Some c) t)"

text \<open>A thousands group: a period and three digits. A decimal remainder: a comma and two digits.\<close>

definition thousands_group :: "string \<Rightarrow> bool" where
  "thousands_group g = (case g of [q, a, b, c] \<Rightarrow> q = CHR ''.'' \<and> is_digit a \<and> is_digit b \<and> is_digit c
                                 | _ \<Rightarrow> False)"

definition decimal_remainder :: "string \<Rightarrow> bool" where
  "decimal_remainder r = (case r of [q, a, b] \<Rightarrow> q = CHR '','' \<and> is_digit a \<and> is_digit b
                                   | _ \<Rightarrow> False)"

text \<open>The two sub-patterns of \<open>RE_NUM_BR\<close> for a thousands group and a decimal remainder.\<close>

definition GRP :: regex where
  "GRP = Seq (Lit CHR ''.'') (Rep 3 3 digit)"

definition DEC :: regex where
  "DEC = Seq (Lit CHR '','') (Rep 2 2 digit)"

text \<open>A position inside or at the end of a run of digits that no period follows.\<close>

definition digits_then :: "string \<Rightarrow> mstate \<Rightarrow> bool" where
  "digits_then w s = (\<exists>ds. rest s = ds @ w \<and> (\<forall>c\<in>set ds. is_digit c))"

text \<open>The class \<open>[:.]\<close>.\<close>

definition punct :: "char \<Rightarrow> bool" where
  "punct c = (c = CHR '':'' \<or> c = CHR ''.'')"













section \<open>Properties of the normalisers\<close>

lemma foldl_decimal:
  "foldl (\<lambda>n c. 10 * n + digit_val c) a ds = a * 10 ^ length ds + decimal ds"
  by (induction ds arbitrary: a) (simp_all add: algebra_simps)

lemma int_of_digits_decimal: "int_of_digits ds = decimal ds"
  by (simp add: int_of_digits_def foldl_decimal)

lemma is_digit_not_space: "is_digit c \<Longrightarrow> \<not> is_space c"
  by (auto simp: is_digit_def is_space_def)

lemma strip_id:
  assumes "s = [] \<or> (\<not> is_space (hd s) \<and> \<not> is_space (last s))"
  shows "strip s = s"
proof (cases s)
  case Nil
  then show ?thesis by (simp add: strip_def)
next
  case (Cons c cs)
  then have h: "\<not> is_space c" and l: "\<not> is_space (last s)" using assms by auto
  have a: "dropWhile is_space s = s" using Cons h by simp
  have "s \<noteq> []" using Cons by simp
  then obtain xs x where sx: "s = xs @ [x]" by (meson rev_exhaust)
  have b: "dropWhile is_space (rev s) = rev s" using l by (simp add: sx)
  show ?thesis by (simp add: strip_def a b)
qed

lemma strip_digits:
  assumes "\<forall>c\<in>set ds. is_digit c"
  shows "strip ds = ds"
proof (rule strip_id, cases ds)
  case Nil
  then show "ds = [] \<or> (\<not> is_space (hd ds) \<and> \<not> is_space (last ds))" by simp
next
  case (Cons c cs)
  then have "hd ds \<in> set ds" "last ds \<in> set ds" by auto
  then show "ds = [] \<or> (\<not> is_space (hd ds) \<and> \<not> is_space (last ds))"
    using assms is_digit_not_space by blast
qed

lemma int_body_digits:
  "ds \<noteq> [] \<Longrightarrow> \<forall>c\<in>set ds. is_digit c \<Longrightarrow> int_body ds"
proof (induction ds rule: int_body.induct)
  case 1
  then show ?case by simp
next
  case (2 c)
  then show ?case by simp
next
  case (3 c d cs)
  have "d \<noteq> CHR ''_''" using 3(4) by (auto simp: is_digit_def)
  then show ?case using 3 by simp
qed

lemma py_int_str_digits:
  assumes "ds \<noteq> []" and "\<forall>c\<in>set ds. is_digit c"
  shows "py_int_str ds = Inr (int_of_digits ds)"
proof -
  obtain c cs where ds: "ds = c # cs" using assms(1) by (cases ds) auto
  have c: "c \<noteq> CHR ''-''" "c \<noteq> CHR ''+''"
    using assms(2) ds by (auto simp: is_digit_def)
  have r: "remove_char CHR ''_'' ds = ds"
    unfolding remove_char_def using assms(2) by (induction ds) (auto simp: is_digit_def)
  have b: "int_body ds" using assms by (rule int_body_digits)
  have "py_int_str ds =
      (case (case ds of [] \<Rightarrow> (1, ds)
             | c # r \<Rightarrow> if c = CHR ''-'' then (- 1, r)
                        else if c = CHR ''+'' then (1, r) else (1, ds)) of
         (sg, b) \<Rightarrow> if int_body b then Inr (sg * int_of_digits (remove_char CHR ''_'' b))
                    else Inl ValueError)"
    by (simp add: py_int_str_def strip_digits[OF assms(2)] Let_def)
  also have "(case ds of [] \<Rightarrow> (1::int, ds)
             | c # r \<Rightarrow> if c = CHR ''-'' then (- 1, r)
                        else if c = CHR ''+'' then (1, r) else (1, ds)) = (1, ds)"
    using c ds by simp
  finally show ?thesis using b r by simp
qed

lemma strip_decomp:
  "\<exists>a b. r = a @ strip r @ b \<and> (\<forall>c\<in>set a. is_space c) \<and> (\<forall>c\<in>set b. is_space c)"
proof -
  define m where "m = dropWhile is_space r"
  have 1: "r = takeWhile is_space r @ m" by (simp add: m_def)
  have "m = rev (takeWhile is_space (rev m) @ dropWhile is_space (rev m))"
    by (simp only: takeWhile_dropWhile_id rev_rev_ident)
  also have "\<dots> = rev (dropWhile is_space (rev m)) @ rev (takeWhile is_space (rev m))"
    by (simp only: rev_append)
  finally have 2: "m = strip r @ rev (takeWhile is_space (rev m))"
    unfolding strip_def m_def .
  have 3: "\<forall>c\<in>set (takeWhile is_space r). is_space c" by (auto dest: set_takeWhileD)
  have 4: "\<forall>c\<in>set (rev (takeWhile is_space (rev m))). is_space c"
    by (auto dest: set_takeWhileD)
  from 1 2 have "r = takeWhile is_space r @ strip r @ rev (takeWhile is_space (rev m))"
    by simp
  with 3 4 show ?thesis by blast
qed

lemma is_space_not_comma: "is_space c \<Longrightarrow> c \<noteq> CHR '',''"
  by (auto simp: is_space_def)

lemma is_space_not_digit: "is_space c \<Longrightarrow> \<not> is_digit c"
  by (auto simp: is_digit_def is_space_def)

lemma digits_before_comma_spaces_left:
  "\<forall>c\<in>set a. is_space c \<Longrightarrow>
   filter is_digit (takeWhile (\<lambda>c. c \<noteq> CHR '','') (a @ x))
     = filter is_digit (takeWhile (\<lambda>c. c \<noteq> CHR '','') x)"
  by (induction a) (simp_all add: is_space_not_comma is_space_not_digit)

lemma digits_before_comma_spaces_right:
  "\<forall>c\<in>set b. is_space c \<Longrightarrow>
   filter is_digit (takeWhile (\<lambda>c. c \<noteq> CHR '','') (x @ b))
     = filter is_digit (takeWhile (\<lambda>c. c \<noteq> CHR '','') x)"
proof (induction x)
  case Nil
  have "filter is_digit (takeWhile (\<lambda>c. c \<noteq> CHR '','') b) = []"
    using Nil by (induction b) (simp_all add: is_space_not_comma is_space_not_digit)
  then show ?case by simp
next
  case (Cons c x)
  then show ?case by simp
qed

lemma digits_before_comma_strip:
  "filter is_digit (takeWhile (\<lambda>c. c \<noteq> CHR '','') (strip r))
     = filter is_digit (takeWhile (\<lambda>c. c \<noteq> CHR '','') r)"
proof -
  obtain a b where r: "r = a @ strip r @ b"
    and a: "\<forall>c\<in>set a. is_space c" and b: "\<forall>c\<in>set b. is_space c"
    using strip_decomp by blast
  have "filter is_digit (takeWhile (\<lambda>c. c \<noteq> CHR '','') (a @ strip r @ b))
          = filter is_digit (takeWhile (\<lambda>c. c \<noteq> CHR '','') (strip r))"
    using a b
    by (simp add: digits_before_comma_spaces_left digits_before_comma_spaces_right)
  with r show ?thesis by simp
qed

lemma digits_before_comma_remove_spaces:
  "filter is_digit (takeWhile (\<lambda>c. c \<noteq> CHR '','') (remove_char CHR '' '' x))
     = filter is_digit (takeWhile (\<lambda>c. c \<noteq> CHR '','') x)"
  by (induction x) (auto simp: remove_char_def is_digit_def)

lemma digits_remove_points: "filter is_digit (remove_char CHR ''.'' x) = filter is_digit x"
  by (induction x) (auto simp: remove_char_def is_digit_def)

lemma takeWhile_if_comma:
  "(if CHR '','' \<in> set s then takeWhile (\<lambda>c. c \<noteq> CHR '','') s else s)
     = takeWhile (\<lambda>c. c \<noteq> CHR '','') s"
  by (induction s) auto

lemma normalize_kwh_closed:
  "normalize_kwh (Some r)
     = Inr (if kwh_digits r = [] then None else Some (int_of_digits (kwh_digits r)))"
proof (cases "r = []")
  case True
  then show ?thesis by (simp add: normalize_kwh_def kwh_digits_def)
next
  case False
  have d: "filter is_digit (remove_char CHR ''.''
             (takeWhile (\<lambda>c. c \<noteq> CHR '','') (remove_char CHR '' '' (strip r)))) = kwh_digits r"
    by (simp add: digits_remove_points digits_before_comma_remove_spaces
        digits_before_comma_strip kwh_digits_def)
  have all: "\<forall>c\<in>set (kwh_digits r). is_digit c" by (simp add: kwh_digits_def)
  show ?thesis
  proof (cases "kwh_digits r = []")
    case True
    then show ?thesis using False d
      by (simp add: normalize_kwh_def Let_def takeWhile_if_comma)
  next
    case nonempty: False
    then show ?thesis using False d py_int_str_digits[OF nonempty all]
      by (simp add: normalize_kwh_def Let_def takeWhile_if_comma bind_err_def)
  qed
qed



lemma py_float_str_error: "py_float_str s = Inl e \<Longrightarrow> e = ValueError"
  by (auto simp: py_float_str_def Let_def split: list.splits if_splits)



section \<open>First matches of the patterns\<close>

lemma after_Nil [simp]: "after p [] = p"
  by (simp add: after_def)

lemma after_Cons [simp]: "after p (c # u) = after (Some c) u"
  by (simp add: after_def)

lemma after_append [simp]: "after p (u @ v) = after (after p u) v"
  by (simp add: after_def)

lemma first_is_Cons [simp]: "first_is (x # t) y = (x = y)"
  by (auto simp: first_is_def)

lemma first_is_Nil [simp]: "\<not> first_is [] y"
  by (simp add: first_is_def)

lemma first_is_append: "first_is xs x \<Longrightarrow> first_is (xs @ ys) x"
  by (auto simp: first_is_def)

lemma first_is_concat_map:
  "first_is xs x \<Longrightarrow> first_is (f x) y \<Longrightarrow> first_is (concat (map f xs)) y"
  by (auto simp: first_is_def)

lemma first_Seq:
  "first_is (rmatch ic a s) s1 \<Longrightarrow> first_is (rmatch ic b s1) s2
   \<Longrightarrow> first_is (rmatch ic (Seq a b) s) s2"
  by (simp add: first_is_concat_map)

lemma first_Alt_left: "first_is (rmatch ic a s) x \<Longrightarrow> first_is (rmatch ic (Alt a b) s) x"
  by (simp add: first_is_append)

lemma first_Alt_right:
  "rmatch ic a s = [] \<Longrightarrow> first_is (rmatch ic b s) x \<Longrightarrow> first_is (rmatch ic (Alt a b) s) x"
  by simp

lemma first_Group:
  "first_is (rmatch ic a s) s' \<Longrightarrow> first_is (rmatch ic (Group k a) s) (set_group k s s')"
  by (auto simp: first_is_def)

lemma upto_greedy_stop: "f s = [] \<Longrightarrow> upto_greedy f n s = [s]"
  by (cases n) simp_all

lemma upto_greedy_first:
  "first_is (f s) s1 \<Longrightarrow> first_is (upto_greedy f n s1) x
   \<Longrightarrow> first_is (upto_greedy f (Suc n) s) x"
  by (simp add: first_is_append first_is_concat_map)

lemma step_Cons:
  "step P \<lparr>prev = p, rest = c # v, caps = m\<rparr>
     = (if P c then [\<lparr>prev = Some c, rest = v, caps = m\<rparr>] else [])"
  by (simp add: step_def)

lemma step_Nil: "step P \<lparr>prev = p, rest = [], caps = m\<rparr> = []"
  by (simp add: step_def)

lemma step_stop:
  "v = [] \<or> \<not> P (hd v) \<Longrightarrow> step P \<lparr>prev = p, rest = v, caps = m\<rparr> = []"
  by (cases v) (simp_all add: step_def)

lemma upto_greedy_class:
  assumes "\<forall>c\<in>set u. P c" and "v = [] \<or> \<not> P (hd v)" and "length u \<le> n"
  shows "first_is (upto_greedy (step P) n \<lparr>prev = p, rest = u @ v, caps = m\<rparr>)
           \<lparr>prev = after p u, rest = v, caps = m\<rparr>"
  using assms
proof (induction u arbitrary: p n)
  case Nil
  then show ?case by (simp add: upto_greedy_stop step_stop)
next
  case (Cons c u)
  then obtain n' where n: "n = Suc n'" "length u \<le> n'" by (cases n) auto
  have "first_is (upto_greedy (step P) n' \<lparr>prev = Some c, rest = u @ v, caps = m\<rparr>)
          \<lparr>prev = after (Some c) u, rest = v, caps = m\<rparr>"
    using Cons n by simp
  then show ?case using Cons.prems(1) n
    by (simp add: step_Cons first_is_append del: upto_greedy.simps)
       (simp add: step_Cons first_is_append)
qed

lemma first_Star_class:
  assumes "\<forall>c\<in>set u. P c" and "v = [] \<or> \<not> P (hd v)"
  shows "first_is (rmatch ic (Star (Cls P)) \<lparr>prev = p, rest = u @ v, caps = m\<rparr>)
           \<lparr>prev = after p u, rest = v, caps = m\<rparr>"
proof -
  have "rmatch ic (Cls P) = step P" by (rule ext) simp
  then show ?thesis using upto_greedy_class[OF assms, of "length (u @ v)" p m] by simp
qed

lemma RE_NUM_BR_alt:
  "RE_NUM_BR = Seq (Alt (Seq (Rep 1 3 digit) (Plus GRP)) (Plus digit)) (Opt DEC)"
  by (simp add: RE_NUM_BR_def GRP_def DEC_def)

lemma thousands_groupE:
  assumes "thousands_group g"
  obtains a b c where "g = [CHR ''.'', a, b, c]" "is_digit a" "is_digit b" "is_digit c"
  using assms by (auto simp: thousands_group_def split: list.splits)

lemma decimal_remainderE:
  assumes "decimal_remainder r"
  obtains a b where "r = [CHR '','', a, b]" "is_digit a" "is_digit b"
  using assms by (auto simp: decimal_remainder_def split: list.splits)

lemma rmatch_GRP:
  assumes "thousands_group g"
  shows "rmatch False GRP \<lparr>prev = p, rest = g @ w, caps = m\<rparr>
           = [\<lparr>prev = after p g, rest = w, caps = m\<rparr>]"
proof -
  obtain a b c where g: "g = [CHR ''.'', a, b, c]" "is_digit a" "is_digit b" "is_digit c"
    using assms by (rule thousands_groupE)
  show ?thesis
    by (simp add: g GRP_def digit_def step_Cons eval_nat_numeral)
qed

lemma rmatch_GRP_fail:
  "v = [] \<or> hd v \<noteq> CHR ''.'' \<Longrightarrow> rmatch False GRP \<lparr>prev = p, rest = v, caps = m\<rparr> = []"
  by (cases v) (simp_all add: GRP_def step_Cons step_Nil)

lemma rmatch_DEC:
  assumes "decimal_remainder r"
  shows "rmatch False DEC \<lparr>prev = p, rest = r @ w, caps = m\<rparr>
           = [\<lparr>prev = after p r, rest = w, caps = m\<rparr>]"
proof -
  obtain a b where r: "r = [CHR '','', a, b]" "is_digit a" "is_digit b"
    using assms by (rule decimal_remainderE)
  show ?thesis
    by (simp add: r DEC_def digit_def step_Cons eval_nat_numeral)
qed

lemma rmatch_DEC_fail:
  "v = [] \<or> hd v \<noteq> CHR '','' \<Longrightarrow> rmatch False DEC \<lparr>prev = p, rest = v, caps = m\<rparr> = []"
  by (cases v) (simp_all add: DEC_def step_Cons step_Nil)

lemma upto_greedy_groups:
  assumes "\<forall>g\<in>set gs. thousands_group g" and "v = [] \<or> hd v \<noteq> CHR ''.''"
    and "length gs \<le> n"
  shows "first_is (upto_greedy (rmatch False GRP) n \<lparr>prev = p, rest = concat gs @ v, caps = m\<rparr>)
           \<lparr>prev = after p (concat gs), rest = v, caps = m\<rparr>"
  using assms
proof (induction gs arbitrary: p n)
  case Nil
  then show ?case by (simp add: upto_greedy_stop rmatch_GRP_fail)
next
  case (Cons g gs)
  then obtain n' where n: "n = Suc n'" "length gs \<le> n'" by (cases n) auto
  have g: "thousands_group g" using Cons.prems(1) by simp
  have 1: "first_is (rmatch False GRP \<lparr>prev = p, rest = g @ concat gs @ v, caps = m\<rparr>)
             \<lparr>prev = after p g, rest = concat gs @ v, caps = m\<rparr>"
    by (simp add: rmatch_GRP[OF g])
  have 2: "first_is (upto_greedy (rmatch False GRP) n'
               \<lparr>prev = after p g, rest = concat gs @ v, caps = m\<rparr>)
             \<lparr>prev = after (after p g) (concat gs), rest = v, caps = m\<rparr>"
    using Cons n by simp
  show ?case using upto_greedy_first[OF 1 2] n by simp
qed

lemma length_concat_groups:
  "\<forall>g\<in>set gs. thousands_group g \<Longrightarrow> length gs \<le> length (concat gs)"
  by (induction gs) (auto elim!: thousands_groupE)

lemma first_Star_groups:
  assumes "\<forall>g\<in>set gs. thousands_group g" and "v = [] \<or> hd v \<noteq> CHR ''.''"
  shows "first_is (rmatch False (Star GRP) \<lparr>prev = p, rest = concat gs @ v, caps = m\<rparr>)
           \<lparr>prev = after p (concat gs), rest = v, caps = m\<rparr>"
  using upto_greedy_groups[OF assms, of "length (concat gs @ v)" p m]
    length_concat_groups[OF assms(1)] by simp

lemma first_Plus_groups:
  assumes "gs \<noteq> []" and "\<forall>g\<in>set gs. thousands_group g" and "v = [] \<or> hd v \<noteq> CHR ''.''"
  shows "first_is (rmatch False (Plus GRP) \<lparr>prev = p, rest = concat gs @ v, caps = m\<rparr>)
           \<lparr>prev = after p (concat gs), rest = v, caps = m\<rparr>"
proof -
  obtain g gs' where gs: "gs = g # gs'" using assms(1) by (cases gs) auto
  have g: "thousands_group g" and gs': "\<forall>g\<in>set gs'. thousands_group g"
    using assms(2) gs by simp_all
  have 1: "first_is (rmatch False GRP \<lparr>prev = p, rest = g @ concat gs' @ v, caps = m\<rparr>)
             \<lparr>prev = after p g, rest = concat gs' @ v, caps = m\<rparr>"
    by (simp add: rmatch_GRP[OF g])
  have 2: "first_is (rmatch False (Star GRP) \<lparr>prev = after p g, rest = concat gs' @ v, caps = m\<rparr>)
             \<lparr>prev = after (after p g) (concat gs'), rest = v, caps = m\<rparr>"
    by (rule first_Star_groups[OF gs' assms(3)])
  show ?thesis unfolding Plus_def using first_Seq[OF 1 2] gs by simp
qed

lemma first_Plus_digits:
  assumes "ds \<noteq> []" and "\<forall>c\<in>set ds. is_digit c" and "v = [] \<or> \<not> is_digit (hd v)"
  shows "first_is (rmatch ic (Plus digit) \<lparr>prev = p, rest = ds @ v, caps = m\<rparr>)
           \<lparr>prev = after p ds, rest = v, caps = m\<rparr>"
proof -
  obtain c cs where ds: "ds = c # cs" using assms(1) by (cases ds) auto
  have c: "is_digit c" and cs: "\<forall>c\<in>set cs. is_digit c" using assms(2) ds by simp_all
  have 1: "first_is (rmatch ic digit \<lparr>prev = p, rest = c # cs @ v, caps = m\<rparr>)
             \<lparr>prev = Some c, rest = cs @ v, caps = m\<rparr>"
    by (simp add: digit_def step_Cons c)
  have 2: "first_is (rmatch ic (Star digit) \<lparr>prev = Some c, rest = cs @ v, caps = m\<rparr>)
             \<lparr>prev = after (Some c) cs, rest = v, caps = m\<rparr>"
    unfolding digit_def by (rule first_Star_class[OF cs assms(3)])
  show ?thesis unfolding Plus_def using first_Seq[OF 1 2] ds by simp
qed

lemma rmatch_Opt: "rmatch ic (Opt a) s = rmatch ic a s @ [s]"
proof -
  have "upto_greedy (rmatch ic a) 0 = (\<lambda>s. [s])" by (rule ext) simp
  then show ?thesis by (simp add: Opt_def)
qed

lemma times_invariant:
  assumes "\<And>s s'. I s \<Longrightarrow> s' \<in> set (f s) \<Longrightarrow> I s'"
  shows "I s \<Longrightarrow> s' \<in> set (times f n s) \<Longrightarrow> I s'"
  using assms by (induction n arbitrary: s) auto

lemma upto_greedy_invariant:
  assumes "\<And>s s'. I s \<Longrightarrow> s' \<in> set (f s) \<Longrightarrow> I s'"
  shows "I s \<Longrightarrow> s' \<in> set (upto_greedy f n s) \<Longrightarrow> I s'"
  using assms by (induction n arbitrary: s) auto

lemma rmatch_Rep_invariant:
  assumes "\<And>s s'. I s \<Longrightarrow> s' \<in> set (rmatch ic a s) \<Longrightarrow> I s'"
    and "I s" and "s' \<in> set (rmatch ic (Rep k n a) s)"
  shows "I s'"
proof -
  obtain s1 where 1: "s1 \<in> set (times (rmatch ic a) k s)"
    and 2: "s' \<in> set (upto_greedy (rmatch ic a) (n - k) s1)"
    using assms(3) by auto
  have "I s1" using times_invariant[of I "rmatch ic a", OF assms(1) assms(2) 1] by simp
  then show ?thesis using upto_greedy_invariant[of I "rmatch ic a", OF assms(1) _ 2] by simp
qed

lemma digits_then_step:
  assumes "w = [] \<or> \<not> is_digit (hd w)" and "digits_then w s" and "s' \<in> set (rmatch ic digit s)"
  shows "digits_then w s'"
proof -
  obtain ds where ds: "rest s = ds @ w" "\<forall>c\<in>set ds. is_digit c"
    using assms(2) by (auto simp: digits_then_def)
  show ?thesis
  proof (cases ds)
    case Nil
    then have "rmatch ic digit s = []"
      using assms(1) ds by (cases w) (auto simp: digit_def step_def)
    then show ?thesis using assms(3) by simp
  next
    case (Cons c cs)
    then have "rest s' = cs @ w"
      using assms(3) ds by (auto simp: digit_def step_def split: if_splits)
    then show ?thesis using ds Cons by (auto simp: digits_then_def)
  qed
qed

lemma Plus_GRP_fail:
  assumes "w = [] \<or> hd w \<noteq> CHR ''.''" and "digits_then w s"
  shows "rmatch False (Plus GRP) s = []"
proof -
  obtain ds where ds: "rest s = ds @ w" "\<forall>c\<in>set ds. is_digit c"
    using assms(2) by (auto simp: digits_then_def)
  have "rest s = [] \<or> hd (rest s) \<noteq> CHR ''.''"
    using assms(1) ds by (cases ds) (auto simp: is_digit_def)
  then have "rmatch False (Lit CHR ''.'') s = []"
    by (cases "rest s") (auto simp: step_def)
  then show ?thesis by (simp add: Plus_def GRP_def)
qed

lemma grouped_alternative_fail:
  assumes "\<forall>c\<in>set ds. is_digit c" and "w = [] \<or> (hd w \<noteq> CHR ''.'' \<and> \<not> is_digit (hd w))"
  shows "rmatch False (Seq (Rep 1 3 digit) (Plus GRP)) \<lparr>prev = p, rest = ds @ w, caps = m\<rparr> = []"
proof -
  let ?s = "\<lparr>prev = p, rest = ds @ w, caps = m\<rparr>"
  have w: "w = [] \<or> \<not> is_digit (hd w)" "w = [] \<or> hd w \<noteq> CHR ''.''" using assms(2) by auto
  have 0: "digits_then w ?s" using assms(1) by (auto simp: digits_then_def)
  have "digits_then w s'" if "s' \<in> set (rmatch False (Rep 1 3 digit) ?s)" for s'
    using rmatch_Rep_invariant[of "digits_then w" False digit ?s s' 1 3, OF _ 0 that]
      digits_then_step[OF w(1)] by blast
  then have "rmatch False (Plus GRP) s' = []" if "s' \<in> set (rmatch False (Rep 1 3 digit) ?s)" for s'
    using that Plus_GRP_fail[OF w(2)] by blast
  then show ?thesis by simp
qed

lemma first_Rep_1_3_digits:
  assumes "ds \<noteq> []" and "length ds \<le> 3" and "\<forall>c\<in>set ds. is_digit c"
    and "w = [] \<or> \<not> is_digit (hd w)"
  shows "first_is (rmatch ic (Rep 1 3 digit) \<lparr>prev = p, rest = ds @ w, caps = m\<rparr>)
           \<lparr>prev = after p ds, rest = w, caps = m\<rparr>"
proof -
  have stop: "step is_digit \<lparr>prev = q, rest = w, caps = m\<rparr> = []" for q
    using assms(4) by (rule step_stop)
  consider a where "ds = [a]" | a b where "ds = [a, b]" | a b c where "ds = [a, b, c]"
    using assms(1,2) by (cases ds rule: list.exhaust; cases "tl ds"; cases "tl (tl ds)"; cases "tl (tl (tl ds))") auto
  then show ?thesis
  proof cases
    case 1
    then show ?thesis using assms(3) by (simp add: digit_def step_Cons stop eval_nat_numeral)
  next
    case 2
    then show ?thesis using assms(3) by (simp add: digit_def step_Cons stop eval_nat_numeral)
  next
    case 3
    then show ?thesis using assms(3) by (simp add: digit_def step_Cons stop eval_nat_numeral)
  qed
qed

text \<open>
  The first token that \<open>RE_NUM_BR\<close> reads at a position: digits \<open>ds\<close>, thousands groups
  \<open>gs\<close> and a decimal remainder \<open>dec\<close>, the last two possibly missing.
\<close>

lemma first_RE_NUM_BR:
  assumes ds: "ds \<noteq> []" "\<forall>c\<in>set ds. is_digit c"
    and gs: "\<forall>g\<in>set gs. thousands_group g" "gs \<noteq> [] \<longrightarrow> length ds \<le> 3"
    and dec: "dec = [] \<or> decimal_remainder dec"
    and follow: "dec = [] \<longrightarrow>
        x = [] \<or> (hd x \<noteq> CHR ''.'' \<and> hd x \<noteq> CHR '','' \<and> (gs = [] \<longrightarrow> \<not> is_digit (hd x)))"
  shows "first_is (rmatch False RE_NUM_BR \<lparr>prev = p, rest = ds @ concat gs @ dec @ x, caps = m\<rparr>)
           \<lparr>prev = after p (ds @ concat gs @ dec), rest = x, caps = m\<rparr>"
proof -
  let ?s = "\<lparr>prev = p, rest = ds @ concat gs @ dec @ x, caps = m\<rparr>"
  let ?s1 = "\<lparr>prev = after p (ds @ concat gs), rest = dec @ x, caps = m\<rparr>"
  have dx_point: "dec @ x = [] \<or> hd (dec @ x) \<noteq> CHR ''.''"
    using dec follow by (cases "dec = []") (auto elim!: decimal_remainderE)
  have int_part: "first_is (rmatch False (Alt (Seq (Rep 1 3 digit) (Plus GRP)) (Plus digit)) ?s) ?s1"
  proof (cases "gs = []")
    case True
    have w: "dec @ x = [] \<or> (hd (dec @ x) \<noteq> CHR ''.'' \<and> \<not> is_digit (hd (dec @ x)))"
      using dec follow True by (cases "dec = []") (auto elim!: decimal_remainderE simp: is_digit_def)
    have 1: "rmatch False (Seq (Rep 1 3 digit) (Plus GRP)) ?s = []"
      using grouped_alternative_fail[OF ds(2) w, of p m] True by simp
    have 2: "first_is (rmatch False (Plus digit) ?s) ?s1"
      using first_Plus_digits[OF ds, of "dec @ x" False p m] w True by auto
    show ?thesis by (rule first_Alt_right[OF 1 2])
  next
    case False
    obtain g gs' where g: "gs = g # gs'" using False by (cases gs) auto
    then have "thousands_group g" using gs(1) by simp
    then have h: "concat gs @ dec @ x = [] \<or> \<not> is_digit (hd (concat gs @ dec @ x))"
      using g by (auto elim!: thousands_groupE simp: is_digit_def)
    have 1: "first_is (rmatch False (Rep 1 3 digit) ?s)
               \<lparr>prev = after p ds, rest = concat gs @ dec @ x, caps = m\<rparr>"
      using first_Rep_1_3_digits[OF ds(1) _ ds(2) h, of False p m] gs(2) False by simp
    have 2: "first_is (rmatch False (Plus GRP)
                \<lparr>prev = after p ds, rest = concat gs @ dec @ x, caps = m\<rparr>) ?s1"
      using first_Plus_groups[OF False gs(1) dx_point, of "after p ds" m] by simp
    show ?thesis by (rule first_Alt_left[OF first_Seq[OF 1 2]])
  qed
  have dec_part: "first_is (rmatch False (Opt DEC) ?s1)
                    \<lparr>prev = after p (ds @ concat gs @ dec), rest = x, caps = m\<rparr>"
  proof (cases "dec = []")
    case True
    then have "rmatch False DEC ?s1 = []"
      using follow rmatch_DEC_fail[of x "after p (ds @ concat gs)" m] by auto
    then show ?thesis using True by (simp add: rmatch_Opt)
  next
    case False
    then have "decimal_remainder dec" using dec by simp
    then show ?thesis by (simp add: rmatch_Opt rmatch_DEC)
  qed
  show ?thesis unfolding RE_NUM_BR_alt by (rule first_Seq[OF int_part dec_part])
qed

lemma search_from_first:
  "first_is (rmatch ic (Group 0 r) \<lparr>prev = p, rest = t, caps = Map.empty\<rparr>) x
   \<Longrightarrow> search_from ic r p t = Some x"
  by (cases t) (auto simp: first_is_def)

lemma re_search_RE_NUM_BR:
  assumes ds: "ds \<noteq> []" "\<forall>c\<in>set ds. is_digit c"
    and gs: "\<forall>g\<in>set gs. thousands_group g" "gs \<noteq> [] \<longrightarrow> length ds \<le> 3"
    and dec: "dec = [] \<or> decimal_remainder dec"
    and follow: "dec = [] \<longrightarrow>
        x = [] \<or> (hd x \<noteq> CHR ''.'' \<and> hd x \<noteq> CHR '','' \<and> (gs = [] \<longrightarrow> \<not> is_digit (hd x)))"
  shows "\<exists>m. re_search False RE_NUM_BR (ds @ concat gs @ dec @ x) = Some m
             \<and> m 0 = Some (ds @ concat gs @ dec)"
proof -
  let ?s = "\<lparr>prev = None, rest = ds @ concat gs @ dec @ x, caps = Map.empty\<rparr>"
  let ?s' = "\<lparr>prev = after None (ds @ concat gs @ dec), rest = x, caps = Map.empty\<rparr>"
  have "first_is (rmatch False (Group 0 RE_NUM_BR) ?s) (set_group 0 ?s ?s')"
    by (rule first_Group[OF first_RE_NUM_BR[OF assms]])
  then have "search_from False RE_NUM_BR None (ds @ concat gs @ dec @ x) = Some (set_group 0 ?s ?s')"
    by (rule search_from_first)
  then show ?thesis by (simp add: re_search_def set_group_def)
qed

lemma concat_map_concat:
  "concat (map f (concat (map g xs))) = concat (map (\<lambda>x. concat (map f (g x))) xs)"
  by (induction xs) simp_all

lemma rmatch_Seq_assoc: "rmatch ic (Seq (Seq a b) c) s = rmatch ic (Seq a (Seq b c)) s"
proof -
  have "rmatch ic (Seq b c) = (\<lambda>x. concat (map (rmatch ic c) (rmatch ic b x)))"
    by (rule ext) simp
  then show ?thesis by (simp add: concat_map_concat)
qed

lemma rmatch_Str:
  "rmatch True (Seq (Str w) R) \<lparr>prev = p, rest = t, caps = m\<rparr>
     = (if ci_prefix w t
        then rmatch True R \<lparr>prev = after p (take (length w) t), rest = drop (length w) t, caps = m\<rparr>
        else [])"
proof (induction w arbitrary: p t)
  case Nil
  then show ?case by (simp add: Str_def)
next
  case (Cons c w)
  have unf: "rmatch True (Seq (Str (c # w)) R) s
                  = concat (map (rmatch True (Seq (Str w) R)) (rmatch True (Lit c) s))" for s
    using rmatch_Seq_assoc[of True "Lit c" "Str w" R s] by (simp add: Str_def)
  show ?case
  proof (cases t)
    case Nil
    show ?thesis unfolding unf Nil by (simp add: step_Nil)
  next
    case (Cons d t')
    show ?thesis unfolding unf Cons using Cons.IH[of "Some d" t']
      by (simp add: step_Cons)
  qed
qed

lemma rmatch_Group: "rmatch ic (Group k a) s = map (set_group k s) (rmatch ic a s)"
  by simp

lemma search_from_skip_to:
  assumes "skip_to w p tx = Some (q, t)"
    and "first_is (rmatch True (Group 0 (Seq (Str w) R)) \<lparr>prev = q, rest = t, caps = Map.empty\<rparr>) x"
  shows "search_from True (Seq (Str w) R) p tx = Some x"
  using assms
proof (induction tx arbitrary: p)
  case Nil
  then have "q = p" "t = []" by (auto split: if_splits)
  then show ?case using Nil.prems(2) search_from_first by blast
next
  case (Cons c tx)
  show ?case
  proof (cases "ci_prefix w (c # tx)")
    case True
    then have "q = p" "t = c # tx" using Cons.prems(1) by auto
    then show ?thesis using Cons.prems(2) search_from_first by blast
  next
    case False
    then have "rmatch True (Seq (Str w) R) \<lparr>prev = p, rest = c # tx, caps = Map.empty\<rparr> = []"
      by (simp only: rmatch_Str if_False)
    then have "rmatch True (Group 0 (Seq (Str w) R)) \<lparr>prev = p, rest = c # tx, caps = Map.empty\<rparr> = []"
      by (simp only: rmatch_Group list.map)
    then show ?thesis using Cons False by (simp del: rmatch.simps)
  qed
qed

lemma RE_KWH_alt:
  "RE_KWH label =
     Seq (Str label) (Seq (Star (Cls is_space)) (Seq (Star (Cls punct))
       (Seq (Star (Cls is_space)) (Group 1 (Seq (Cls is_digit) (Star (Cls kwh_tail_char)))))))"
proof -
  have "punct = (\<lambda>c. c = CHR '':'' \<or> c = CHR ''.'')" by (rule ext) (simp add: punct_def)
  then show ?thesis by (simp add: RE_KWH_def space_def)
qed

lemma punct_not_space: "punct c \<Longrightarrow> \<not> is_space c"
  by (auto simp: punct_def is_space_def)

lemma is_space_not_punct: "is_space c \<Longrightarrow> \<not> punct c"
  by (auto simp: punct_def is_space_def)

lemma is_digit_not_punct: "is_digit c \<Longrightarrow> \<not> punct c"
  by (auto simp: punct_def is_digit_def)

text \<open>
  The part of \<open>RE_KWH\<close> after the label, at a position where blanks \<open>w1\<close>, colons or
  periods \<open>pu\<close> and blanks \<open>w2\<close> precede a digit \<open>c\<close>: group 1 is the longest run \<open>c # u\<close>
  of digits, periods, commas and blanks.
\<close>

lemma first_RE_KWH_value:
  assumes w1: "\<forall>c\<in>set w1. is_space c" and pu: "\<forall>c\<in>set pu. punct c"
    and w2: "\<forall>c\<in>set w2. is_space c" and canon: "pu = [] \<longrightarrow> w2 = []"
    and c: "is_digit c" and u: "\<forall>c\<in>set u. kwh_tail_char c"
    and v: "v = [] \<or> \<not> kwh_tail_char (hd v)"
  shows "first_is
           (rmatch True (Seq (Star (Cls is_space)) (Seq (Star (Cls punct))
              (Seq (Star (Cls is_space)) (Group 1 (Seq (Cls is_digit) (Star (Cls kwh_tail_char)))))))
              \<lparr>prev = p, rest = w1 @ pu @ w2 @ c # u @ v, caps = m\<rparr>)
           \<lparr>prev = after p (w1 @ pu @ w2 @ c # u), rest = v, caps = m(1 \<mapsto> c # u)\<rparr>"
proof -
  let ?s1 = "\<lparr>prev = after p w1, rest = pu @ w2 @ c # u @ v, caps = m\<rparr>"
  let ?s2 = "\<lparr>prev = after (after p w1) pu, rest = w2 @ c # u @ v, caps = m\<rparr>"
  let ?s3 = "\<lparr>prev = after (after (after p w1) pu) w2, rest = c # u @ v, caps = m\<rparr>"
  let ?s4 = "\<lparr>prev = Some c, rest = u @ v, caps = m\<rparr>"
  let ?s5 = "\<lparr>prev = after (Some c) u, rest = v, caps = m\<rparr>"
  have h1: "pu @ w2 @ c # u @ v = [] \<or> \<not> is_space (hd (pu @ w2 @ c # u @ v))"
    using pu canon c by (cases pu) (auto simp: punct_not_space is_digit_not_space)
  have h2: "w2 @ c # u @ v = [] \<or> \<not> punct (hd (w2 @ c # u @ v))"
    using w2 c by (cases w2) (auto simp: is_space_not_punct is_digit_not_punct)
  have h3: "c # u @ v = [] \<or> \<not> is_space (hd (c # u @ v))"
    using c by (simp add: is_digit_not_space)
  have 1: "first_is (rmatch True (Star (Cls is_space))
              \<lparr>prev = p, rest = w1 @ pu @ w2 @ c # u @ v, caps = m\<rparr>) ?s1"
    by (rule first_Star_class[OF w1 h1])
  have 2: "first_is (rmatch True (Star (Cls punct)) ?s1) ?s2"
    by (rule first_Star_class[OF pu h2])
  have 3: "first_is (rmatch True (Star (Cls is_space)) ?s2) ?s3"
    by (rule first_Star_class[OF w2 h3])
  have 4: "first_is (rmatch True (Cls is_digit) ?s3) ?s4"
    using c by (simp add: step_Cons)
  have 5: "first_is (rmatch True (Star (Cls kwh_tail_char)) ?s4) ?s5"
    by (rule first_Star_class[OF u v])
  have 6: "first_is (rmatch True (Group 1 (Seq (Cls is_digit) (Star (Cls kwh_tail_char)))) ?s3)
             (set_group 1 ?s3 ?s5)"
    by (rule first_Group[OF first_Seq[OF 4 5]])
  have 7: "set_group 1 ?s3 ?s5
             = \<lparr>prev = after p (w1 @ pu @ w2 @ c # u), rest = v, caps = m(1 \<mapsto> c # u)\<rparr>"
    by (simp add: set_group_def)
  show ?thesis using first_Seq[OF 1 first_Seq[OF 2 first_Seq[OF 3 6]]] unfolding 7 .
qed

lemma ci_prefix_length: "ci_prefix w t \<Longrightarrow> length w \<le> length t"
  by (induction w t rule: ci_prefix.induct) simp_all

text \<open>
  The kWh pattern on a text whose first occurrence of the label (in any case) is \<open>lab\<close>,
  followed by the separator and the digit \<open>c\<close>.
\<close>

lemma re_search_RE_KWH:
  assumes occ: "skip_to label None full_text = Some (q, lab @ w1 @ pu @ w2 @ c # u @ v)"
    and lab: "length lab = length label"
    and w1: "\<forall>c\<in>set w1. is_space c" and pu: "\<forall>c\<in>set pu. punct c"
    and w2: "\<forall>c\<in>set w2. is_space c" and canon: "pu = [] \<longrightarrow> w2 = []"
    and c: "is_digit c" and u: "\<forall>c\<in>set u. kwh_tail_char c"
    and v: "v = [] \<or> \<not> kwh_tail_char (hd v)"
  shows "\<exists>m. re_search True (RE_KWH label) full_text = Some m \<and> m 1 = Some (c # u)"
proof -
  let ?R = "Seq (Star (Cls is_space)) (Seq (Star (Cls punct))
              (Seq (Star (Cls is_space)) (Group 1 (Seq (Cls is_digit) (Star (Cls kwh_tail_char))))))"
  let ?t = "lab @ w1 @ pu @ w2 @ c # u @ v"
  let ?s = "\<lparr>prev = q, rest = ?t, caps = Map.empty\<rparr>"
  let ?s' = "\<lparr>prev = after (after q lab) (w1 @ pu @ w2 @ c # u), rest = v,
              caps = Map.empty(1 \<mapsto> c # u)\<rparr>"
  have pre: "ci_prefix label ?t"
  proof (cases full_text)
    case Nil
    then show ?thesis using occ by (auto split: if_splits)
  next
    case (Cons a as)
    have "skip_to label p tx = Some (q, t) \<Longrightarrow> ci_prefix label t" for p tx t
      by (induction tx arbitrary: p) (auto split: if_splits)
    then show ?thesis using occ by blast
  qed
  have "rmatch True (Seq (Str label) ?R) ?s
          = rmatch True ?R \<lparr>prev = after q lab, rest = w1 @ pu @ w2 @ c # u @ v, caps = Map.empty\<rparr>"
    using pre lab by (simp only: rmatch_Str if_True) simp
  then have "first_is (rmatch True (Seq (Str label) ?R) ?s) ?s'"
    using first_RE_KWH_value[OF w1 pu w2 canon c u v, of "after q lab" Map.empty] by simp
  then have "first_is (rmatch True (Group 0 (Seq (Str label) ?R)) ?s) (set_group 0 ?s ?s')"
    by (rule first_Group)
  then have "search_from True (Seq (Str label) ?R) None full_text = Some (set_group 0 ?s ?s')"
    by (rule search_from_skip_to[OF occ])
  then show ?thesis by (simp add: re_search_def RE_KWH_alt set_group_def)
qed

lemma re_search_RE_KWH_None:
  assumes "skip_to label None full_text = None"
  shows "re_search True (RE_KWH label) full_text = None"
proof -
  let ?R = "Seq (Star (Cls is_space)) (Seq (Star (Cls punct))
              (Seq (Star (Cls is_space)) (Group 1 (Seq (Cls is_digit) (Star (Cls kwh_tail_char))))))"
  have "skip_to label p tx = None \<Longrightarrow> search_from True (Seq (Str label) ?R) p tx = None" for p tx
  proof (induction tx arbitrary: p)
    case Nil
    then have "\<not> ci_prefix label []" by (cases label) (auto split: if_splits)
    then have "rmatch True (Seq (Str label) ?R) \<lparr>prev = p, rest = [], caps = Map.empty\<rparr> = []"
      by (simp only: rmatch_Str if_False)
    then have "rmatch True (Group 0 (Seq (Str label) ?R)) \<lparr>prev = p, rest = [], caps = Map.empty\<rparr> = []"
      by (simp only: rmatch_Group list.map)
    then show ?case by (simp del: rmatch.simps)
  next
    case (Cons a tx)
    then have n: "\<not> ci_prefix label (a # tx)" and r: "skip_to label (Some a) tx = None"
      by (auto split: if_splits)
    have "rmatch True (Seq (Str label) ?R) \<lparr>prev = p, rest = a # tx, caps = Map.empty\<rparr> = []"
      using n by (simp only: rmatch_Str if_False)
    then have "rmatch True (Group 0 (Seq (Str label) ?R)) \<lparr>prev = p, rest = a # tx, caps = Map.empty\<rparr> = []"
      by (simp only: rmatch_Group list.map)
    then show ?case using Cons.IH[OF r] by (simp del: rmatch.simps)
  qed
  then show ?thesis using assms by (simp add: re_search_def RE_KWH_alt)
qed

lemma token_chars:
  assumes "\<forall>c\<in>set ds. is_digit c" and "\<forall>g\<in>set gs. thousands_group g"
    and "dec = [] \<or> decimal_remainder dec"
  shows "\<forall>c\<in>set (ds @ concat gs @ dec). kwh_tail_char c \<and> c \<noteq> CHR '' ''"
proof -
  have d: "is_digit c \<Longrightarrow> kwh_tail_char c \<and> c \<noteq> CHR '' ''" for c
    by (auto simp: kwh_tail_char_def is_digit_def)
  have p: "kwh_tail_char CHR ''.''" "kwh_tail_char CHR '',''" by (simp_all add: kwh_tail_char_def)
  have 1: "\<forall>c\<in>set ds. kwh_tail_char c \<and> c \<noteq> CHR '' ''" using assms(1) d by blast
  have 2: "\<forall>c\<in>set (concat gs). kwh_tail_char c \<and> c \<noteq> CHR '' ''"
    using assms(2) d p by (fastforce elim!: thousands_groupE)
  have 3: "\<forall>c\<in>set dec. kwh_tail_char c \<and> c \<noteq> CHR '' ''"
    using assms(3) d p by (fastforce elim!: decimal_remainderE)
  show ?thesis using 1 2 3 by auto
qed

text \<open>
  The recogniser on a text whose first occurrence of the label is followed by the
  separator and a number made of digits \<open>ds\<close>, thousands groups \<open>gs\<close> and a decimal
  remainder \<open>dec\<close>; \<open>y\<close> is the text after the number.
\<close>

lemma extract_kwh_after_label_number:
  assumes occ: "skip_to label None full_text = Some (q, lab @ w1 @ pu @ w2 @ ds @ concat gs @ dec @ y)"
    and lab: "length lab = length label"
    and w1: "\<forall>c\<in>set w1. is_space c" and pu: "\<forall>c\<in>set pu. punct c"
    and w2: "\<forall>c\<in>set w2. is_space c" and canon: "pu = [] \<longrightarrow> w2 = []"
    and ds: "ds \<noteq> []" "\<forall>c\<in>set ds. is_digit c"
    and gs: "\<forall>g\<in>set gs. thousands_group g" "gs \<noteq> [] \<longrightarrow> length ds \<le> 3"
    and dec: "dec = [] \<or> decimal_remainder dec"
    and follow: "dec = [] \<longrightarrow>
        remove_char CHR '' '' (takeWhile kwh_tail_char y) = []
        \<or> (hd (remove_char CHR '' '' (takeWhile kwh_tail_char y)) \<noteq> CHR ''.''
           \<and> hd (remove_char CHR '' '' (takeWhile kwh_tail_char y)) \<noteq> CHR '',''
           \<and> (gs = [] \<longrightarrow> \<not> is_digit (hd (remove_char CHR '' '' (takeWhile kwh_tail_char y)))))"
  shows "extract_kwh_after_label full_text label = normalize_kwh (Some (ds @ concat gs @ dec))"
proof -
  let ?n = "ds @ concat gs @ dec"
  let ?tw = "takeWhile kwh_tail_char y"
  let ?x = "remove_char CHR '' '' ?tw"
  obtain c ds' where cds: "ds = c # ds'" using ds(1) by (cases ds) auto
  define u where "u = ds' @ concat gs @ dec @ ?tw"
  define v where "v = dropWhile kwh_tail_char y"
  have chars: "\<forall>c\<in>set ?n. kwh_tail_char c \<and> c \<noteq> CHR '' ''"
    by (rule token_chars[OF ds(2) gs(1) dec])
  have c: "is_digit c" using ds(2) cds by simp
  have u: "\<forall>c\<in>set u. kwh_tail_char c"
    using chars cds by (auto simp: u_def dest: set_takeWhileD)
  have v: "v = [] \<or> \<not> kwh_tail_char (hd v)"
    unfolding v_def by (metis hd_dropWhile)
  have split: "lab @ w1 @ pu @ w2 @ ds @ concat gs @ dec @ y = lab @ w1 @ pu @ w2 @ c # u @ v"
    by (simp add: cds u_def v_def)
  have cu: "c # u = ?n @ ?tw" by (simp add: cds u_def)
  define n where "n = ds @ concat gs @ dec"
  obtain m where m: "re_search True (RE_KWH label) full_text = Some m" "m 1 = Some (c # u)"
    using re_search_RE_KWH[OF occ[unfolded split] lab w1 pu w2 canon c u v] by blast
  have "remove_char CHR '' '' ?n = ?n"
    using chars unfolding remove_char_def by (simp add: filter_id_conv)
  then have tns: "remove_char CHR '' '' (c # u) = n @ ?x"
    unfolding cu by (simp add: remove_char_def n_def)
  obtain m2 where m2: "re_search False RE_NUM_BR (n @ ?x) = Some m2" "m2 0 = Some n"
    using re_search_RE_NUM_BR[OF ds gs dec follow] by (auto simp: n_def)
  have "extract_kwh_after_label full_text label = normalize_kwh (Some n)"
    unfolding extract_kwh_after_label_def m(1) using m(2) by (simp add: tns m2 Let_def)
  then show ?thesis by (simp add: n_def)
qed

lemma is_digit_not_comma: "is_digit c \<Longrightarrow> c \<noteq> CHR '',''"
  by (auto simp: is_digit_def)

lemma kwh_digits_digits: "\<forall>c\<in>set ds. is_digit c \<Longrightarrow> kwh_digits ds = ds"
  by (induction ds) (simp_all add: kwh_digits_def is_digit_not_comma)

text \<open>A run of plain digits after the label is read as one number, however long.\<close>

lemma extract_kwh_after_label_digits:
  assumes "skip_to label None full_text = Some (q, lab @ w1 @ pu @ w2 @ ds)"
    and "length lab = length label"
    and "\<forall>c\<in>set w1. is_space c" and "\<forall>c\<in>set pu. punct c"
    and "\<forall>c\<in>set w2. is_space c" and "pu = [] \<longrightarrow> w2 = []"
    and "ds \<noteq> []" and "\<forall>c\<in>set ds. is_digit c"
  shows "extract_kwh_after_label full_text label = Inr (Some (decimal ds))"
proof -
  have occ: "skip_to label None full_text = Some (q, lab @ w1 @ pu @ w2 @ ds @ concat [] @ [] @ [])"
    using assms(1) by simp
  have "extract_kwh_after_label full_text label = normalize_kwh (Some (ds @ concat [] @ []))"
    using extract_kwh_after_label_number[of label full_text q lab w1 pu w2 ds "[]" "[]" "[]",
        OF occ assms(2,3,4,5,6,7,8)]
    by (simp add: remove_char_def)
  moreover have "kwh_digits ds = ds"
    using assms(8) by (rule kwh_digits_digits)
  ultimately show ?thesis using assms(7)
    by (simp add: normalize_kwh_closed int_of_digits_decimal)
qed


section \<open>Dates in a text\<close>















lemma mstate_eq: "(s::mstate) = \<lparr>prev = prev s, rest = rest s, caps = caps s\<rparr>"
  by simp

















section \<open>Properties of the extracted record\<close>

lemma digit_val_nonneg: "is_digit c \<Longrightarrow> 0 \<le> digit_val c"
  by (auto simp: is_digit_def digit_val_def)

lemma decimal_nonneg: "\<forall>c\<in>set ds. is_digit c \<Longrightarrow> 0 \<le> decimal ds"
  by (induction ds) (simp_all add: digit_val_nonneg)

lemma normalize_kwh_nonneg: "\<exists>v. normalize_kwh raw = Inr v \<and> nonneg v"
proof (cases raw)
  case None
  then show ?thesis by (simp add: normalize_kwh_def nonneg_def)
next
  case (Some r)
  have "0 \<le> decimal (kwh_digits r)"
    by (rule decimal_nonneg) (simp add: kwh_digits_def)
  then show ?thesis using Some
    by (simp add: normalize_kwh_closed nonneg_def int_of_digits_decimal)
qed

lemma normalize_brl_Inr: "\<exists>v. normalize_brl raw = Inr v"
  by (auto simp: normalize_brl_def Let_def dest: py_float_str_error
      split: option.splits sum.splits)

lemma extract_kwh_after_label_nonneg:
  "\<exists>v. extract_kwh_after_label full_text label = Inr v \<and> nonneg v"
  using normalize_kwh_nonneg
  by (auto simp: extract_kwh_after_label_def Let_def nonneg_def split: option.splits)

lemma extract_consumo_kwh_nonneg: "\<exists>v. extract_consumo_kwh lines = Inr v \<and> nonneg v"
proof (induction lines)
  case Nil
  then show ?case by (simp add: nonneg_def)
next
  case (Cons l ls)
  then show ?case using normalize_kwh_nonneg[of "Some (last (re_findall RE_NUM_BR l))"]
    by (simp add: Let_def)
qed

lemma extract_total_a_pagar_Inr: "\<exists>v. extract_total_a_pagar text_norm = Inr v"
  using normalize_brl_Inr by (auto simp: extract_total_a_pagar_def split: option.splits)

lemma extract_custo_tusd_fio_b_Inr: "\<exists>v. extract_custo_tusd_fio_b full_text = Inr v"
proof -
  have "custo_loop ls = Some res \<Longrightarrow> \<exists>v. res = Inr v" for ls res
    using normalize_brl_Inr
    by (induction ls) (auto split: if_splits option.splits)
  then show ?thesis using normalize_brl_Inr
    by (auto simp: extract_custo_tusd_fio_b_def split: option.splits)
qed

lemma extract_fields_from_text_Inr:
  "\<exists>f consumo sa ij co st.
      extract_fields_from_text t = Inr f
      \<and> extract_consumo_kwh (nonempty_lines t) = Inr consumo
      \<and> extract_kwh_after_label t ''SALDO ANTERIOR'' = Inr sa
      \<and> extract_kwh_after_label t ''INJETADO'' = Inr ij
      \<and> extract_kwh_after_label t ''COMPENSADO'' = Inr co
      \<and> extract_kwh_after_label t ''SALDO ATUAL'' = Inr st
      \<and> CONSUMO_kWh f = consumo
      \<and> quartet f = quartet_rule (sa, ij, co, st)
      \<and> VENCIMENTO f = extract_vencimento (clean_spaces t)"
proof -
  obtain total where 1: "extract_total_a_pagar (clean_spaces t) = Inr total"
    using extract_total_a_pagar_Inr by blast
  obtain custo where 2: "extract_custo_tusd_fio_b t = Inr custo"
    using extract_custo_tusd_fio_b_Inr by blast
  obtain consumo where 3: "extract_consumo_kwh (nonempty_lines t) = Inr consumo"
    using extract_consumo_kwh_nonneg by blast
  obtain sa where 4: "extract_kwh_after_label t ''SALDO ANTERIOR'' = Inr sa"
    using extract_kwh_after_label_nonneg by blast
  obtain ij where 5: "extract_kwh_after_label t ''INJETADO'' = Inr ij"
    using extract_kwh_after_label_nonneg by blast
  obtain co where 6: "extract_kwh_after_label t ''COMPENSADO'' = Inr co"
    using extract_kwh_after_label_nonneg by blast
  obtain st where 7: "extract_kwh_after_label t ''SALDO ATUAL'' = Inr st"
    using extract_kwh_after_label_nonneg by blast
  show ?thesis
    unfolding extract_fields_from_text_def Let_def 1 2 3 4 5 6 7 bind_err_def
    by (simp add: quartet_def quartet_rule_def split_def)
qed

lemma extract_fields_from_pdf_Inr:
  "\<exists>f consumo sa ij co st.
      extract_fields_from_pdf pages = Inr f
      \<and> extract_consumo_kwh (nonempty_lines (full_text_of pages)) = Inr consumo
      \<and> extract_kwh_after_label (full_text_of pages) ''SALDO ANTERIOR'' = Inr sa
      \<and> extract_kwh_after_label (full_text_of pages) ''INJETADO'' = Inr ij
      \<and> extract_kwh_after_label (full_text_of pages) ''COMPENSADO'' = Inr co
      \<and> extract_kwh_after_label (full_text_of pages) ''SALDO ATUAL'' = Inr st
      \<and> CONSUMO_kWh f = consumo
      \<and> quartet f = quartet_rule (sa, ij, co, st)
      \<and> VENCIMENTO f = extract_vencimento (clean_spaces (full_text_of pages))"
  unfolding extract_fields_from_pdf_def by (rule extract_fields_from_text_Inr)

lemma extract_fields_from_text_record:
  assumes "extract_fields_from_text t = Inr f"
  shows "extract_total_a_pagar (clean_spaces t) = Inr (TOTAL_A_PAGAR f)"
    and "extract_custo_tusd_fio_b t = Inr (CUSTO_TUSD_FIO_B f)"
    and "NOME_CLIENTE f = extract_customer_name (nonempty_lines t)"
    and "VENCIMENTO f = extract_vencimento (clean_spaces t)"
    and "(LEITURA_ANTERIOR f, LEITURA_ATUAL f) =
           (let la = extract_first_date_after ''LEITURA ANTERIOR'' (clean_spaces t);
                lat = extract_first_date_after ''LEITURA ATUAL'' (clean_spaces t)
            in if falsy la \<or> falsy lat
               then (py_or la (fst (extract_leituras_por_bloco (clean_spaces t))),
                     py_or lat (snd (extract_leituras_por_bloco (clean_spaces t))))
               else (la, lat))"
proof -
  obtain total where 1: "extract_total_a_pagar (clean_spaces t) = Inr total"
    using extract_total_a_pagar_Inr by blast
  obtain custo where 2: "extract_custo_tusd_fio_b t = Inr custo"
    using extract_custo_tusd_fio_b_Inr by blast
  obtain consumo where 3: "extract_consumo_kwh (nonempty_lines t) = Inr consumo"
    using extract_consumo_kwh_nonneg by blast
  obtain sa where 4: "extract_kwh_after_label t ''SALDO ANTERIOR'' = Inr sa"
    using extract_kwh_after_label_nonneg by blast
  obtain ij where 5: "extract_kwh_after_label t ''INJETADO'' = Inr ij"
    using extract_kwh_after_label_nonneg by blast
  obtain co where 6: "extract_kwh_after_label t ''COMPENSADO'' = Inr co"
    using extract_kwh_after_label_nonneg by blast
  obtain st where 7: "extract_kwh_after_label t ''SALDO ATUAL'' = Inr st"
    using extract_kwh_after_label_nonneg by blast
  note f = assms[unfolded extract_fields_from_text_def Let_def 1 2 3 4 5 6 7 bind_err_def]
  show "extract_total_a_pagar (clean_spaces t) = Inr (TOTAL_A_PAGAR f)"
    using f 1 by (auto simp: split_def)
  show "extract_custo_tusd_fio_b t = Inr (CUSTO_TUSD_FIO_B f)"
    using f 2 by (auto simp: split_def)
  show "NOME_CLIENTE f = extract_customer_name (nonempty_lines t)"
    using f by (auto simp: split_def)
  show "VENCIMENTO f = extract_vencimento (clean_spaces t)"
    using f by (auto simp: split_def)
  show "(LEITURA_ANTERIOR f, LEITURA_ATUAL f) =
           (let la = extract_first_date_after ''LEITURA ANTERIOR'' (clean_spaces t);
                lat = extract_first_date_after ''LEITURA ATUAL'' (clean_spaces t)
            in if falsy la \<or> falsy lat
               then (py_or la (fst (extract_leituras_por_bloco (clean_spaces t))),
                     py_or lat (snd (extract_leituras_por_bloco (clean_spaces t))))
               else (la, lat))"
    using f by (auto simp: split_def Let_def)
qed

lemma decimal_zeros: "decimal (replicate n CHR ''0'') = 0"
  by (induction n) (simp_all add: digit_val_def)

lemma tarifa_fio_b_closed:
  "tarifa_fio_b f =
     (case (CUSTO_TUSD_FIO_B f, COMPENSADO_kWh f) of
        (Some c, Some k) \<Rightarrow> if k \<noteq> 0 \<and> float_range k then Some (c / of_int k) else None
      | _ \<Rightarrow> None)"
  by (auto simp: tarifa_fio_b_def Let_def bind_err_def py_float_int_def py_truediv_def
      float_range_def split: option.splits)









text \<open>
  C7, as amended: the fee rate is the fee amount divided by the compensated energy
  exactly when the fee amount is present and the compensated energy is present, not zero
  and within the range of a float; it is absent in every other case, in particular when
  the compensated energy is absent or zero.
\<close>

theorem tarifa_fio_b_defined:
  "tarifa_fio_b f =
     (case (CUSTO_TUSD_FIO_B f, COMPENSADO_kWh f) of
        (Some c, Some k) \<Rightarrow> if k \<noteq> 0 \<and> float_range k then Some (c / of_int k) else None
      | _ \<Rightarrow> None)"
  by (rule tarifa_fio_b_closed)

text \<open>The fee of 1262.22 over 30 kWh; and no rate when the compensated energy is zero.\<close>

theorem tarifa_fio_b_defined_witness:
  "tarifa_fio_b
     \<lparr>NOME_CLIENTE = None, CODIGO_DO_CLIENTE = None, REF_MES_ANO = None,
      TOTAL_A_PAGAR = None, VENCIMENTO = None, LEITURA_ANTERIOR = None,
      LEITURA_ATUAL = None, CUSTO_TUSD_FIO_B = Some (126222 / 100), CONSUMO_kWh = None,
      SALDO_ANTERIOR_kWh = Some 100, INJETADO_kWh = Some 50, COMPENSADO_kWh = Some 30,
      SALDO_ATUAL_kWh = Some 120\<rparr> = Some (126222 / 100 / 30)
   \<and> tarifa_fio_b
     \<lparr>NOME_CLIENTE = None, CODIGO_DO_CLIENTE = None, REF_MES_ANO = None,
      TOTAL_A_PAGAR = None, VENCIMENTO = None, LEITURA_ANTERIOR = None,
      LEITURA_ATUAL = None, CUSTO_TUSD_FIO_B = Some (126222 / 100), CONSUMO_kWh = None,
      SALDO_ANTERIOR_kWh = Some 0, INJETADO_kWh = Some 0, COMPENSADO_kWh = Some 0,
      SALDO_ATUAL_kWh = Some 0\<rparr> = None"
  using tarifa_fio_b_defined[of "\<lparr>NOME_CLIENTE = None, CODIGO_DO_CLIENTE = None, REF_MES_ANO = None,
      TOTAL_A_PAGAR = None, VENCIMENTO = None, LEITURA_ANTERIOR = None,
      LEITURA_ATUAL = None, CUSTO_TUSD_FIO_B = Some (126222 / 100), CONSUMO_kWh = None,
      SALDO_ANTERIOR_kWh = Some 100, INJETADO_kWh = Some 50, COMPENSADO_kWh = Some 30,
      SALDO_ATUAL_kWh = Some 120\<rparr>"]
    tarifa_fio_b_defined[of "\<lparr>NOME_CLIENTE = None, CODIGO_DO_CLIENTE = None, REF_MES_ANO = None,
      TOTAL_A_PAGAR = None, VENCIMENTO = None, LEITURA_ANTERIOR = None,
      LEITURA_ATUAL = None, CUSTO_TUSD_FIO_B = Some (126222 / 100), CONSUMO_kWh = None,
      SALDO_ANTERIOR_kWh = Some 0, INJETADO_kWh = Some 0, COMPENSADO_kWh = Some 0,
      SALDO_ATUAL_kWh = Some 0\<rparr>"]
  by (simp add: float_range_def)

text \<open>
  C7 as stated fails: a document with a fee of 1.00 and a compensated energy of 2 followed
  by 308 zeros yields a record in which both are present and the energy is not zero, yet
  the rate is absent, because the conversion of that integer to a float overflows.
\<close>

theorem tarifa_fio_b_overflow_counterexample:
  "map_sum id CUSTO_TUSD_FIO_B
     (extract_fields_from_pdf
        [Some ''CUSTO TUSD FIO B 1,00'', Some (''COMPENSADO: 2'' @ replicate 308 CHR ''0'')])
     = Inr (Some 1)
   \<and> map_sum id COMPENSADO_kWh
     (extract_fields_from_pdf
        [Some ''CUSTO TUSD FIO B 1,00'', Some (''COMPENSADO: 2'' @ replicate 308 CHR ''0'')])
     = Inr (Some (2 * 10 ^ 308))
   \<and> map_sum id tarifa_fio_b
     (extract_fields_from_pdf
        [Some ''CUSTO TUSD FIO B 1,00'', Some (''COMPENSADO: 2'' @ replicate 308 CHR ''0'')])
     = Inr None"
proof -
  let ?p = "[Some ''CUSTO TUSD FIO B 1,00'', Some (''COMPENSADO: 2'' @ replicate 308 CHR ''0'')]"
  let ?t = "full_text_of ?p"
  obtain f consumo sa ij co st where f: "extract_fields_from_pdf ?p = Inr f"
    and co: "extract_kwh_after_label ?t ''COMPENSADO'' = Inr co"
    and q: "quartet f = quartet_rule (sa, ij, co, st)"
    using extract_fields_from_pdf_Inr[of ?p] by blast
  have "extract_kwh_after_label ?t ''COMPENSADO''
          = Inr (Some (decimal (CHR ''2'' # replicate 308 CHR ''0'')))"
    by (rule extract_kwh_after_label_digits[where q = "Some (CHR 0x0A)" and lab = "''COMPENSADO''"
          and pu = "'':''", of _ _ "[]" "'' ''"])
       (simp_all add: full_text_of_def lower_char_def ascii_upper_def ascii_lower_def
          latin_upper_def latin_lower_def is_space_def punct_def is_digit_def)
  then have "co = Some (2 * 10 ^ 308)"
    using co by (simp add: decimal_zeros digit_val_def)
  then have comp: "COMPENSADO_kWh f = Some (2 * 10 ^ 308)"
    using q by (simp add: quartet_def quartet_rule_def)
  obtain ls where ls: "nonempty_lines ?t = ''CUSTO TUSD FIO B 1,00'' # ls"
    by (simp add: nonempty_lines_def splitlines_def full_text_of_def is_linebreak_def
        strip_def is_space_def)
  have c1: "contains ''CUSTO TUSD FIO B'' (upper ''CUSTO TUSD FIO B 1,00'')"
    by code_simp
  have c2: "map_option (\<lambda>m. m 0) (re_search False RE_MONEY_BR ''CUSTO TUSD FIO B 1,00'')
              = Some (Some ''1,00'')"
    by code_simp
  have c3: "normalize_brl (Some ''1,00'') = Inr (Some 1)"
    by code_simp
  have "custo_loop (nonempty_lines ?t) = Some (Inr (Some 1))"
    unfolding ls using c1 c2 c3 by (auto simp del: contains.simps)
  then have "extract_custo_tusd_fio_b ?t = Inr (Some 1)"
    by (simp add: extract_custo_tusd_fio_b_def)
  then have custo: "CUSTO_TUSD_FIO_B f = Some 1"
    using extract_fields_from_text_record(2)[of ?t f] f
    by (simp add: extract_fields_from_pdf_def)
  have "tarifa_fio_b f = None"
    by (simp add: tarifa_fio_b_closed custo comp float_range_def)
  then show ?thesis using f custo comp by simp
qed

section \<open>The anti-concatenation guard of the kWh recogniser\<close>




section \<open>The customer name\<close>





lemma strip_trimmed:
  "strip s = [] \<or> (\<not> is_space (hd (strip s)) \<and> \<not> is_space (last (strip s)))"
proof -
  define m where "m = dropWhile is_space s"
  define r where "r = dropWhile is_space (rev m)"
  have st: "strip s = rev r" by (simp add: strip_def m_def r_def)
  show ?thesis
  proof (cases "r = []")
    case True
    then show ?thesis by (simp add: st)
  next
    case False
    then have 1: "\<not> is_space (hd r)" unfolding r_def by (metis hd_dropWhile)
    have "rev m = takeWhile is_space (rev m) @ r" by (simp add: r_def)
    then have "last (rev m) = last r" using False by (metis last_appendR)
    moreover have "m \<noteq> []" using False by (auto simp: r_def)
    ultimately have "last r = hd m" by (simp add: last_rev)
    moreover have "\<not> is_space (hd m)" using \<open>m \<noteq> []\<close> unfolding m_def by (metis hd_dropWhile)
    ultimately have 2: "\<not> is_space (last r)" by simp
    show ?thesis using False 1 2 by (simp add: st hd_rev last_rev)
  qed
qed

lemma strip_strip: "strip (strip s) = strip s"
  by (rule strip_id) (rule strip_trimmed)

lemma nonempty_lines_trimmed: "l \<in> set (nonempty_lines t) \<Longrightarrow> strip l = l \<and> l \<noteq> []"
  by (auto simp: nonempty_lines_def strip_strip)




section \<open>The due date\<close>




end
